theory Spec2Isabelle
  imports Main "HOL-Library.Sublist"
begin

section \<open>Data model (db/schema.ts)\<close>

text \<open>
  Timestamps are integers: milliseconds since the epoch, as \<^verbatim>\<open>Date.getTime()\<close> reads
  them. Text columns are strings; a nullable column is an option. Field names carry a
  table prefix because several tables share column names. Each modelled call reads
  the clock once: its argument \<open>now\<close> stands for every \<^verbatim>\<open>new Date()\<close> and
  \<^verbatim>\<open>Date.now()\<close> of that call.

  Every time column is declared \<^verbatim>\<open>integer(..., { mode: 'timestamp' })\<close>: the column
  holds whole seconds. A \<^verbatim>\<open>Date\<close> is written as \<open>floor (ms / 1000)\<close> and read back as
  that number times 1000, and the bound of a comparison in a query is floored the same
  way. The rows of the model hold the value as it is read back, in ms; \<open>toStored t\<close> is
  what is read back after \<open>t\<close> was written, and \<open>gt_ts\<close> is \<^verbatim>\<open>gt(column, bound)\<close>.
\<close>

record RefreshToken =
  rt_id :: string
  rt_tokenHash :: string
  rt_userId :: "string option"
  rt_superuserId :: "string option"
  rt_tokenFamily :: string
  rt_expiresAt :: int
  rt_revoked :: bool
  rt_revokedAt :: "int option"
  rt_rotatedAt :: "int option"
  rt_newTokenId :: "string option"
  rt_deviceFingerprint :: string
  rt_ipAddress :: string
  rt_userAgent :: "string option"
  rt_createdAt :: int

record Session =
  s_id :: string
  s_userId :: "string option"
  s_superuserId :: "string option"
  s_tokenFamily :: string
  s_deviceFingerprint :: string
  s_ipAddress :: string
  s_userAgent :: "string option"
  s_lastActivity :: int
  s_sessionStarted :: int
  s_refreshCount :: int
  s_isActive :: bool
  s_revoked :: bool
  s_createdAt :: int

record Otp =
  otp_id :: string
  otp_phoneNumber :: string
  otp_otpHash :: string
  otp_expiresAt :: int
  otp_used :: bool
  otp_usedAt :: "int option"
  otp_usedByFingerprint :: "string option"
  otp_attemptCount :: int
  otp_createdAt :: int

record RateLimit =
  rl_id :: string
  rl_identifier :: string
  rl_endpoint :: string
  rl_requestCount :: int
  rl_windowStart :: int
  rl_lastRequest :: int

definition toStored :: "int \<Rightarrow> int" where
  "toStored t = (t div 1000) * 1000"

definition gt_ts :: "int \<Rightarrow> int \<Rightarrow> bool" where
  "gt_ts column bound = (column div 1000 > bound div 1000)"

text \<open>
  The store: each table is the list of its rows in insertion order, so that
  \<^verbatim>\<open>findFirst\<close> is \<^const>\<open>find\<close> on the list.
\<close>

record db =
  refreshTokens :: "RefreshToken list"
  sessions :: "Session list"
  otps :: "Otp list"
  rateLimits :: "RateLimit list"

text \<open>
  The hash functions of security.ts (SHA-256 digests) and the signing key read from the
  process environment are parameters of the model.
\<close>

record crypto =
  JWT_SECRET :: string
  hashToken :: "string \<Rightarrow> string"
  hashOTP :: "string \<Rightarrow> string"

text \<open>
  The values a call draws from the random source, in the order the source draws them:
  \<^verbatim>\<open>generateTokenFamily()\<close>, \<^verbatim>\<open>generateId('session')\<close>, \<^verbatim>\<open>generateJti()\<close>,
  \<^verbatim>\<open>generateSecureToken()\<close>, \<^verbatim>\<open>generateId('rt')\<close>.
\<close>

record entropy =
  g_tokenFamily :: string
  g_sessionId :: string
  g_jti :: string
  g_secureToken :: string
  g_rtId :: string

record DeviceInfo =
  fingerprint :: string
  ipAddress :: string
  userAgent :: "string option"

text \<open>
  The claims object handed to \<^verbatim>\<open>jwt.sign\<close>. A key the source leaves out of the object
  literal is absent from the token: \<open>None\<close>.
\<close>

record Claims =
  c_userId :: "string option"
  c_superuserId :: "string option"
  c_type :: string
  c_jti :: string
  c_sessionId :: "string option"

record SignedJwt =
  jwt_claims :: Claims
  jwt_iat :: int
  jwt_exp :: int
  jwt_key :: string

record TokenPair =
  accessToken :: SignedJwt
  refreshToken :: string
  expiresIn :: int

section \<open>Constants and helpers (token-service)\<close>

definition ACCESS_TOKEN_EXPIRY :: int where
  \<comment> \<open>'15m', in seconds\<close>
  "ACCESS_TOKEN_EXPIRY = 15 * 60"

definition REFRESH_TOKEN_EXPIRY_DAYS :: int where
  "REFRESH_TOKEN_EXPIRY_DAYS = 30"

definition MAX_REFRESH_COUNT :: int where
  "MAX_REFRESH_COUNT = 1000"

definition MIN_REFRESH_INTERVAL :: int where
  "MIN_REFRESH_INTERVAL = 60000"

text \<open>JavaScript truthiness of an optional string: defined and not empty.\<close>

definition truthy :: "string option \<Rightarrow> bool" where
  "truthy s = (case s of None \<Rightarrow> False | Some v \<Rightarrow> v \<noteq> [])"

text \<open>
  \<^verbatim>\<open>jwt.sign(claims, key, { expiresIn })\<close> of the jsonwebtoken package: the token carries
  the claims given, the issue time in whole seconds and the expiry \<open>expiresIn\<close> seconds
  later, signed with the key.
\<close>

definition jwt_sign :: "Claims \<Rightarrow> string \<Rightarrow> int \<Rightarrow> int \<Rightarrow> SignedJwt" where
  "jwt_sign claims key expIn now =
     \<lparr>jwt_claims = claims, jwt_iat = now div 1000,
      jwt_exp = now div 1000 + expIn, jwt_key = key\<rparr>"

definition accountType :: "string option \<Rightarrow> string" where
  "accountType superuserId = (if truthy superuserId then ''superuser'' else ''user'')"

text \<open>
  \<^verbatim>\<open>update(refreshTokens).set({ revoked: true, revokedAt }).where(P)\<close> and
  \<^verbatim>\<open>update(sessions).set({ revoked: true, isActive: false }).where(P)\<close>.
\<close>

definition revokeTokensWhere :: "(RefreshToken \<Rightarrow> bool) \<Rightarrow> int \<Rightarrow> RefreshToken list \<Rightarrow> RefreshToken list" where
  "revokeTokensWhere P now ts =
     map (\<lambda>r. if P r then r\<lparr>rt_revoked := True, rt_revokedAt := Some (toStored now)\<rparr>
               else r) ts"

definition revokeSessionsWhere :: "(Session \<Rightarrow> bool) \<Rightarrow> Session list \<Rightarrow> Session list" where
  "revokeSessionsWhere P ss =
     map (\<lambda>s. if P s then s\<lparr>s_revoked := True, s_isActive := False\<rparr> else s) ss"

text \<open>
  Inserting a refresh-token row: \<open>id\<close> is the primary key and \<open>token_hash\<close> is unique, so
  the store rejects (throws on) a row that repeats either; \<open>None\<close> is the throw.
\<close>

definition insertRefreshToken :: "RefreshToken \<Rightarrow> RefreshToken list \<Rightarrow> RefreshToken list option" where
  "insertRefreshToken r ts =
     (if rt_id r \<in> set (map rt_id ts) \<or> rt_tokenHash r \<in> set (map rt_tokenHash ts)
      then None else Some (ts @ [r]))"

text \<open>
  \<^verbatim>\<open>insert(sessions).values(s).onConflictDoUpdate({ target: tokenFamily, set: { lastActivity } })\<close>.
  SQLite accepts the conflict target only when \<open>token_family\<close> carries a unique index;
  otherwise it rejects the statement, whatever the rows are. schema.ts declares a plain
  index on \<open>sessions.token_family\<close>, and the statements that created the store are not
  among the sources, so whether the store has the unique index is the parameter
  \<open>familyUnique\<close> (\<open>False\<close> is schema.ts as written). With the index, a row of the same
  family is touched instead of inserting; otherwise the row is inserted, unless its
  primary key is taken. \<open>None\<close> is the throw.
\<close>

definition upsertSession :: "bool \<Rightarrow> Session \<Rightarrow> int \<Rightarrow> Session list \<Rightarrow> Session list option" where
  "upsertSession familyUnique s now ss =
     (if \<not> familyUnique then None
      else if \<exists>x \<in> set ss. s_tokenFamily x = s_tokenFamily s
      then Some (map (\<lambda>x. if s_tokenFamily x = s_tokenFamily s
                           then x\<lparr>s_lastActivity := toStored now\<rparr> else x) ss)
      else if s_id s \<in> set (map s_id ss) then None
      else Some (ss @ [s]))"

section \<open>generateTokenPair\<close>

text \<open>
  The clock is read once per call (\<open>now\<close>). The result is \<open>None\<close> when the promise
  rejects because the store threw; the store keeps what was written before the throw,
  since this function runs outside a transaction.
\<close>

definition generateTokenPair ::
  "crypto \<Rightarrow> bool \<Rightarrow> int \<Rightarrow> entropy \<Rightarrow> string option \<Rightarrow> string option \<Rightarrow> DeviceInfo
     \<Rightarrow> string option \<Rightarrow> db \<Rightarrow> TokenPair option \<times> db" where
  "generateTokenPair cr familyUnique now gen userId superuserId deviceInfo tokenFamily db =
    (let type = accountType superuserId;
         family = (if truthy tokenFamily then the tokenFamily else g_tokenFamily gen);
         sessionId = g_sessionId gen;
         jti = g_jti gen;
         accessToken = jwt_sign
           \<lparr>c_userId = userId, c_superuserId = superuserId, c_type = type, c_jti = jti,
            c_sessionId = Some sessionId\<rparr> (JWT_SECRET cr) ACCESS_TOKEN_EXPIRY now;
         refreshTok = g_secureToken gen;
         refreshTokenHash = hashToken cr refreshTok;
         refreshTokenId = g_rtId gen;
         expiresAt = now + REFRESH_TOKEN_EXPIRY_DAYS * 24 * 60 * 60 * 1000
     in case insertRefreshToken
          \<lparr>rt_id = refreshTokenId, rt_tokenHash = refreshTokenHash, rt_userId = userId,
           rt_superuserId = superuserId, rt_tokenFamily = family,
           rt_expiresAt = toStored expiresAt,
           rt_revoked = False, rt_revokedAt = None, rt_rotatedAt = None, rt_newTokenId = None,
           rt_deviceFingerprint = fingerprint deviceInfo, rt_ipAddress = ipAddress deviceInfo,
           rt_userAgent = userAgent deviceInfo, rt_createdAt = toStored now\<rparr>
          (refreshTokens db) of
          None \<Rightarrow> (None, db)
        | Some ts \<Rightarrow>
           (case upsertSession familyUnique
              \<lparr>s_id = sessionId, s_userId = userId, s_superuserId = superuserId,
               s_tokenFamily = family, s_deviceFingerprint = fingerprint deviceInfo,
               s_ipAddress = ipAddress deviceInfo, s_userAgent = userAgent deviceInfo,
               s_lastActivity = toStored now, s_sessionStarted = toStored now,
               s_refreshCount = 0, s_isActive = True, s_revoked = False,
               s_createdAt = toStored now\<rparr> now (sessions db) of
              None \<Rightarrow> (None, db\<lparr>refreshTokens := ts\<rparr>)
            | Some ss \<Rightarrow>
               (Some \<lparr>accessToken = accessToken, refreshToken = refreshTok, expiresIn = 15 * 60\<rparr>,
                db\<lparr>refreshTokens := ts, sessions := ss\<rparr>)))"

section \<open>rotateRefreshToken\<close>

text \<open>
  The grace-window test of the source (the block "token was JUST rotated"): the pair
  re-issued when the presented record carries \<open>rotatedAt\<close> and a truthy \<open>newTokenId\<close>,
  less than 10000 ms have passed since \<open>rotatedAt\<close>, and the successor row exists and
  is not revoked; \<open>None\<close> when the block falls through.
\<close>

definition graceReissue ::
  "crypto \<Rightarrow> int \<Rightarrow> entropy \<Rightarrow> string \<Rightarrow> RefreshToken \<Rightarrow> RefreshToken list \<Rightarrow> TokenPair option" where
  "graceReissue cr now gen oldRefreshToken tokenRecord ts =
    (case rt_rotatedAt tokenRecord of
       None \<Rightarrow> None
     | Some rotatedAt \<Rightarrow>
        if \<not> truthy (rt_newTokenId tokenRecord) then None
        else
         (let timeSinceRotation = now - rotatedAt in
          if timeSinceRotation < 10000 then
            (case find (\<lambda>r. Some (rt_id r) = rt_newTokenId tokenRecord) ts of
               None \<Rightarrow> None
             | Some newTokenRecord \<Rightarrow>
                if \<not> rt_revoked newTokenRecord then
                  Some \<lparr>accessToken = jwt_sign
                          \<lparr>c_userId = rt_userId newTokenRecord,
                           c_superuserId = rt_superuserId newTokenRecord,
                           c_type = accountType (rt_superuserId newTokenRecord),
                           c_jti = g_jti gen, c_sessionId = None\<rparr>
                          (JWT_SECRET cr) ACCESS_TOKEN_EXPIRY now,
                        refreshToken = oldRefreshToken, expiresIn = 15 * 60\<rparr>
                else None)
          else None))"

text \<open>
  The rest of the transaction once the grace block has fallen through: the session
  checks, the fingerprint check and the rotation itself. A throw of the store inside
  the transaction rolls it back and is caught by the enclosing \<^verbatim>\<open>try\<close>.
\<close>

definition rotateFresh ::
  "crypto \<Rightarrow> int \<Rightarrow> entropy \<Rightarrow> DeviceInfo \<Rightarrow> RefreshToken \<Rightarrow> db \<Rightarrow> (string + TokenPair) \<times> db" where
  "rotateFresh cr now gen deviceInfo tokenRecord db =
    (case find (\<lambda>s. s_tokenFamily s = rt_tokenFamily tokenRecord) (sessions db) of
       None \<Rightarrow> (Inl ''Session not found'', db)
     | Some session \<Rightarrow>
        if now - s_lastActivity session < MIN_REFRESH_INTERVAL
          then (Inl ''Token refreshed too frequently'', db)
        else if now - s_sessionStarted session > REFRESH_TOKEN_EXPIRY_DAYS * 24 * 60 * 60 * 1000
          then (Inl ''Session expired. Please login again.'', db)
        else if s_refreshCount session > MAX_REFRESH_COUNT
          then (Inl ''Session requires re-authentication'', db)
        else if rt_deviceFingerprint tokenRecord \<noteq> fingerprint deviceInfo
          then (Inl ''Device fingerprint mismatch'',
                db\<lparr>refreshTokens :=
                     revokeTokensWhere (\<lambda>r. rt_tokenFamily r = rt_tokenFamily tokenRecord) now
                       (refreshTokens db)\<rparr>)
        else
         (let newRefreshToken = g_secureToken gen;
              newRefreshTokenHash = hashToken cr newRefreshToken;
              newRefreshTokenId = g_rtId gen
          in case insertRefreshToken
               \<lparr>rt_id = newRefreshTokenId, rt_tokenHash = newRefreshTokenHash,
                rt_userId = rt_userId tokenRecord, rt_superuserId = rt_superuserId tokenRecord,
                rt_tokenFamily = rt_tokenFamily tokenRecord,
                rt_expiresAt = toStored (now + REFRESH_TOKEN_EXPIRY_DAYS * 24 * 60 * 60 * 1000),
                rt_revoked = False, rt_revokedAt = None, rt_rotatedAt = None,
                rt_newTokenId = None, rt_deviceFingerprint = fingerprint deviceInfo,
                rt_ipAddress = ipAddress deviceInfo, rt_userAgent = userAgent deviceInfo,
                rt_createdAt = toStored now\<rparr> (refreshTokens db) of
               None \<Rightarrow> (Inl ''An error occurred during token rotation'', db)
             | Some ts \<Rightarrow>
                (Inr \<lparr>accessToken = jwt_sign
                        \<lparr>c_userId = rt_userId tokenRecord,
                         c_superuserId = rt_superuserId tokenRecord,
                         c_type = accountType (rt_superuserId tokenRecord),
                         c_jti = g_jti gen, c_sessionId = None\<rparr>
                        (JWT_SECRET cr) ACCESS_TOKEN_EXPIRY now,
                      refreshToken = newRefreshToken, expiresIn = 15 * 60\<rparr>,
                 db\<lparr>refreshTokens :=
                      map (\<lambda>r. if rt_id r = rt_id tokenRecord
                                then r\<lparr>rt_rotatedAt := Some (toStored now),
                                       rt_newTokenId := Some newRefreshTokenId\<rparr>
                                else r) ts,
                    sessions :=
                      map (\<lambda>s. if s_id s = s_id session
                                then s\<lparr>s_lastActivity := toStored now,
                                       s_refreshCount := s_refreshCount session + 1\<rparr>
                                else s) (sessions db)\<rparr>)))"

definition rotateRefreshToken ::
  "crypto \<Rightarrow> int \<Rightarrow> entropy \<Rightarrow> string \<Rightarrow> DeviceInfo \<Rightarrow> db \<Rightarrow> (string + TokenPair) \<times> db" where
  "rotateRefreshToken cr now gen oldRefreshToken deviceInfo db =
    (let tokenHash = hashToken cr oldRefreshToken in
     case find (\<lambda>r. rt_tokenHash r = tokenHash) (refreshTokens db) of
       None \<Rightarrow> (Inl ''Invalid refresh token'', db)
     | Some tokenRecord \<Rightarrow>
        if rt_revoked tokenRecord then
          (Inl ''Token has been revoked'',
           db\<lparr>refreshTokens :=
                revokeTokensWhere (\<lambda>r. rt_tokenFamily r = rt_tokenFamily tokenRecord) now
                  (refreshTokens db),
              sessions :=
                revokeSessionsWhere (\<lambda>s. s_tokenFamily s = rt_tokenFamily tokenRecord)
                  (sessions db)\<rparr>)
        else if now > rt_expiresAt tokenRecord then
          (Inl ''Refresh token expired. Please login again.'', db)
        else
          (case graceReissue cr now gen oldRefreshToken tokenRecord (refreshTokens db) of
             Some pair \<Rightarrow> (Inr pair, db)
           | None \<Rightarrow> rotateFresh cr now gen deviceInfo tokenRecord db))"

section \<open>revokeAllTokens and enforceDeviceLimit\<close>

definition revokeAllTokens :: "int \<Rightarrow> string option \<Rightarrow> string option \<Rightarrow> db \<Rightarrow> db" where
  "revokeAllTokens now userId superuserId db =
    (let db1 = (if truthy userId
                then db\<lparr>refreshTokens := revokeTokensWhere (\<lambda>r. rt_userId r = userId) now (refreshTokens db),
                        sessions := revokeSessionsWhere (\<lambda>s. s_userId s = userId) (sessions db)\<rparr>
                else db)
     in if truthy superuserId
        then db1\<lparr>refreshTokens :=
                    revokeTokensWhere (\<lambda>r. rt_superuserId r = superuserId) now (refreshTokens db1),
                  sessions :=
                    revokeSessionsWhere (\<lambda>s. s_superuserId s = superuserId) (sessions db1)\<rparr>
        else db1)"

text \<open>
  The query of \<^verbatim>\<open>enforceDeviceLimit\<close>: the account's rows with \<open>isActive\<close>, ordered by
  \<open>createdAt\<close> ascending (rows of equal \<open>createdAt\<close> stay in table order).
\<close>

definition activeSessionsOf :: "string option \<Rightarrow> string option \<Rightarrow> Session list \<Rightarrow> Session list" where
  "activeSessionsOf userId superuserId ss =
    (let accountId = (if truthy userId then userId else superuserId)
     in sort_key s_createdAt
          (filter (\<lambda>s. (if truthy userId then s_userId s = accountId
                         else s_superuserId s = accountId) \<and> s_isActive s) ss))"

text \<open>
  \<open>None\<close> is the \<^verbatim>\<open>TypeError\<close> of reading \<^verbatim>\<open>oldest.id\<close> when \<^verbatim>\<open>activeSessions[0]\<close> is
  undefined (no active session and \<open>maxDevices \<le> 0\<close>); nothing has been written then.
\<close>

definition enforceDeviceLimit :: "int \<Rightarrow> string option \<Rightarrow> string option \<Rightarrow> int \<Rightarrow> db \<Rightarrow> db option" where
  "enforceDeviceLimit now userId superuserId maxDevices db =
    (let accountId = (if truthy userId then userId else superuserId)
     in if \<not> truthy accountId then Some db
        else
         (let activeSessions = activeSessionsOf userId superuserId (sessions db)
          in if int (length activeSessions) \<ge> maxDevices then
               (case activeSessions of
                  [] \<Rightarrow> None
                | oldest # _ \<Rightarrow>
                   Some (db\<lparr>sessions := revokeSessionsWhere (\<lambda>s. s_id s = s_id oldest) (sessions db),
                            refreshTokens :=
                              revokeTokensWhere (\<lambda>r. rt_tokenFamily r = s_tokenFamily oldest) now
                                (refreshTokens db)\<rparr>))
             else Some db))"

text \<open>The account filter of the query of \<^verbatim>\<open>enforceDeviceLimit\<close>.\<close>

definition ofAccount :: "string option \<Rightarrow> string option \<Rightarrow> Session \<Rightarrow> bool" where
  "ofAccount userId superuserId s =
     (if truthy userId then s_userId s = userId else s_superuserId s = superuserId)"

section \<open>checkRateLimit (rate-limit)\<close>

record RateLimitConfig =
  windowMs :: int
  maxRequests :: int

definition RATE_LIMIT_CONFIGS :: "(string \<times> RateLimitConfig) list" where
  "RATE_LIMIT_CONFIGS =
    [(''auth:send-otp'', \<lparr>windowMs = 60 * 1000, maxRequests = 3\<rparr>),
     (''auth:verify-otp'', \<lparr>windowMs = 60 * 1000, maxRequests = 5\<rparr>),
     (''auth:login'', \<lparr>windowMs = 15 * 60 * 1000, maxRequests = 10\<rparr>),
     (''auth:refresh'', \<lparr>windowMs = 60 * 1000, maxRequests = 20\<rparr>),
     (''api:general'', \<lparr>windowMs = 60 * 1000, maxRequests = 100\<rparr>),
     (''appointment:create'', \<lparr>windowMs = 60 * 1000, maxRequests = 5\<rparr>)]"

text \<open>
  The table is an object literal, so besides its own keys it answers to the property
  names every object inherits from \<^verbatim>\<open>Object.prototype\<close>.
\<close>

definition objectPrototypeNames :: "string list" where
  "objectPrototypeNames =
    [''constructor'', ''__defineGetter__'', ''__defineSetter__'', ''hasOwnProperty'',
     ''__lookupGetter__'', ''__lookupSetter__'', ''isPrototypeOf'', ''propertyIsEnumerable'',
     ''toString'', ''valueOf'', ''__proto__'', ''toLocaleString'']"

text \<open>
  \<^verbatim>\<open>RATE_LIMIT_CONFIGS[endpoint] || RATE_LIMIT_CONFIGS['api:general']\<close>: an own key gives
  its config, and a name the object does not answer to gives the general config. An
  inherited name gives a function or an object, which is truthy and has neither
  \<open>windowMs\<close> nor \<open>maxRequests\<close>: \<open>None\<close>.
\<close>

definition configFor :: "string \<Rightarrow> RateLimitConfig option" where
  "configFor endpoint =
    (case map_of RATE_LIMIT_CONFIGS endpoint of
       Some c \<Rightarrow> Some c
     | None \<Rightarrow> if endpoint \<in> set objectPrototypeNames then None
               else map_of RATE_LIMIT_CONFIGS ''api:general'')"

record RateLimitResult =
  allowed :: bool
  remainingRequests :: "int option"
  resetTime :: "int option"

text \<open>
  \<open>storeThrows\<close> stands for a throw of any store call of the function (the \<^verbatim>\<open>catch\<close>
  allows the request); an insert that repeats the primary key throws as well. When
  the looked-up value is not a config, \<^verbatim>\<open>now.getTime() - config.windowMs\<close> is not a
  number, the bound of the query is an invalid date and the store call throws.
  \<open>newId\<close> is the \<^verbatim>\<open>generateId('rl')\<close> of the call.
\<close>

definition checkRateLimit :: "bool \<Rightarrow> int \<Rightarrow> string \<Rightarrow> string \<Rightarrow> string \<Rightarrow> db \<Rightarrow> RateLimitResult \<times> db" where
  "checkRateLimit storeThrows now newId identifier endpoint db =
    (if storeThrows then (\<lparr>allowed = True, remainingRequests = None, resetTime = None\<rparr>, db)
     else
      (case configFor endpoint of
         None \<Rightarrow> (\<lparr>allowed = True, remainingRequests = None, resetTime = None\<rparr>, db)
       | Some config \<Rightarrow>
          (let windowStart = now - windowMs config
           in case find (\<lambda>r. rl_identifier r = identifier \<and> rl_endpoint r = endpoint
                               \<and> gt_ts (rl_windowStart r) windowStart) (rateLimits db) of
                Some existing \<Rightarrow>
                  if rl_requestCount existing \<ge> maxRequests config then
                    (\<lparr>allowed = False, remainingRequests = Some 0,
                      resetTime = Some (rl_windowStart existing + windowMs config)\<rparr>, db)
                  else
                    (\<lparr>allowed = True,
                      remainingRequests = Some (maxRequests config - rl_requestCount existing - 1),
                      resetTime = Some (rl_windowStart existing + windowMs config)\<rparr>,
                     db\<lparr>rateLimits :=
                          map (\<lambda>r. if rl_id r = rl_id existing
                                    then r\<lparr>rl_requestCount := rl_requestCount existing + 1,
                                           rl_lastRequest := toStored now\<rparr>
                                    else r) (rateLimits db)\<rparr>)
              | None \<Rightarrow>
                  if newId \<in> set (map rl_id (rateLimits db)) then
                    (\<lparr>allowed = True, remainingRequests = None, resetTime = None\<rparr>, db)
                  else
                    (\<lparr>allowed = True, remainingRequests = Some (maxRequests config - 1),
                      resetTime = Some (now + windowMs config)\<rparr>,
                     db\<lparr>rateLimits := rateLimits db @
                          [\<lparr>rl_id = newId, rl_identifier = identifier, rl_endpoint = endpoint,
                            rl_requestCount = 1, rl_windowStart = toStored now,
                            rl_lastRequest = toStored now\<rparr>]\<rparr>))))"

section \<open>OTP service (security.ts, otp-service)\<close>

definition isDigit :: "char \<Rightarrow> bool" where
  "isDigit c = (c \<in> set ''0123456789'')"

text \<open>The test \<^verbatim>\<open>/^[1-9]\d{1,14}$/\<close>.\<close>

definition isE164 :: "string \<Rightarrow> bool" where
  "isE164 digits =
    (case digits of
       [] \<Rightarrow> False
     | c # cs \<Rightarrow> c \<in> set ''123456789'' \<and> 1 \<le> length cs \<and> length cs \<le> 14 \<and> list_all isDigit cs)"

text \<open>\<open>None\<close> is the throw "Invalid phone number format".\<close>

definition normalizePhoneNumber :: "string \<Rightarrow> string \<Rightarrow> string option" where
  "normalizePhoneNumber input defaultCountryCode =
    (let digits = filter isDigit input;
         digits = (if length digits > 10 then take 15 digits else digits);
         digits = (if \<not> prefix defaultCountryCode digits \<and> length digits = 10
                   then defaultCountryCode @ digits else digits)
     in if \<not> isE164 digits then None else Some (CHR ''+'' # digits))"

record SendOTPResult =
  so_success :: bool
  so_waitTime :: "int option"
  so_message :: string
  so_otpId :: "string option"

text \<open>
  How \<^verbatim>\<open>Promise.race([snsClient.send(...), timeout 10000 ms])\<close> settles: the send
  resolves first, the send rejects first, or the timer rejects first.
\<close>

datatype race = SendResolved | SendRejected | TimeoutFired

text \<open>
  \<open>otp\<close> and \<open>otpId\<close> are the \<^verbatim>\<open>generateOTP(6)\<close> and \<^verbatim>\<open>generateId('otp')\<close> of the call.
  An insert that repeats the primary key throws into the outer \<^verbatim>\<open>catch\<close>.
\<close>

definition sendOTP :: "crypto \<Rightarrow> int \<Rightarrow> string \<Rightarrow> string \<Rightarrow> race \<Rightarrow> string \<Rightarrow> string \<Rightarrow> db \<Rightarrow> SendOTPResult \<times> db" where
  "sendOTP cr now otp otpId sms phoneNumber countryCode db =
    (case normalizePhoneNumber phoneNumber countryCode of
       None \<Rightarrow>
         (\<lparr>so_success = False, so_waitTime = None,
           so_message = ''An error occurred. Please try again.'', so_otpId = None\<rparr>, db)
     | Some normalizedPhone \<Rightarrow>
        (case find (\<lambda>r. otp_phoneNumber r = normalizedPhone
                         \<and> gt_ts (otp_createdAt r) (now - 60000)
                         \<and> \<not> otp_used r) (otps db) of
           Some recentOTP \<Rightarrow>
             (\<lparr>so_success = False,
               so_waitTime = Some (60 - (now - otp_createdAt recentOTP) div 1000),
               so_message = ''OTP already sent. Check your SMS or wait before requesting again.'',
               so_otpId = None\<rparr>, db)
         | None \<Rightarrow>
            (let otpHash = hashOTP cr otp in
             if sms \<noteq> SendResolved then
               (\<lparr>so_success = False, so_waitTime = None,
                 so_message = ''Failed to send SMS. Please try again.'', so_otpId = None\<rparr>, db)
             else if otpId \<in> set (map otp_id (otps db)) then
               (\<lparr>so_success = False, so_waitTime = None,
                 so_message = ''An error occurred. Please try again.'', so_otpId = None\<rparr>, db)
             else
               (\<lparr>so_success = True, so_waitTime = None, so_message = ''OTP sent successfully'',
                 so_otpId = Some otpId\<rparr>,
                db\<lparr>otps := otps db @
                     [\<lparr>otp_id = otpId, otp_phoneNumber = normalizedPhone, otp_otpHash = otpHash,
                       otp_expiresAt = toStored (now + 10 * 60 * 1000), otp_used = False,
                       otp_usedAt = None, otp_usedByFingerprint = None, otp_attemptCount = 0,
                       otp_createdAt = toStored now\<rparr>]\<rparr>))))"

record VerifyOTPResult =
  vo_success :: bool
  vo_message :: string
  vo_phoneNumber :: "string option"

text \<open>
  The statement of the \<^verbatim>\<open>catch\<close> block:
  \<^verbatim>\<open>UPDATE otps SET attempt_count = attempt_count + 1 WHERE phone_number = ? AND used = 0\<close>.
\<close>

definition incrementAttempts :: "string \<Rightarrow> Otp list \<Rightarrow> Otp list" where
  "incrementAttempts normalizedPhone os =
     map (\<lambda>r. if otp_phoneNumber r = normalizedPhone \<and> \<not> otp_used r
               then r\<lparr>otp_attemptCount := otp_attemptCount r + 1\<rparr> else r) os"

text \<open>
  \<open>txThrows\<close>: the store throws inside the transaction (which rolls back);
  \<open>updateThrows\<close>: the update of the \<^verbatim>\<open>catch\<close> block throws too. When
  \<^verbatim>\<open>normalizePhoneNumber\<close> throws, it throws again inside the \<^verbatim>\<open>catch\<close> block, whose
  inner \<^verbatim>\<open>try\<close> swallows it before the update.
\<close>

definition verifyOTP ::
  "crypto \<Rightarrow> bool \<Rightarrow> bool \<Rightarrow> int \<Rightarrow> string \<Rightarrow> string \<Rightarrow> string \<Rightarrow> string \<Rightarrow> db \<Rightarrow> VerifyOTPResult \<times> db" where
  "verifyOTP cr txThrows updateThrows now phoneNumber otp fp countryCode db =
    (case normalizePhoneNumber phoneNumber countryCode of
       None \<Rightarrow>
         (\<lparr>vo_success = False, vo_message = ''An error occurred. Please try again.'',
           vo_phoneNumber = None\<rparr>, db)
     | Some normalizedPhone \<Rightarrow>
        (let otpHash = hashOTP cr otp in
         if txThrows then
           (\<lparr>vo_success = False, vo_message = ''An error occurred. Please try again.'',
             vo_phoneNumber = None\<rparr>,
            if updateThrows then db
            else db\<lparr>otps := incrementAttempts normalizedPhone (otps db)\<rparr>)
         else
           (case find (\<lambda>r. otp_phoneNumber r = normalizedPhone \<and> otp_otpHash r = otpHash
                            \<and> \<not> otp_used r) (otps db) of
              None \<Rightarrow>
                (\<lparr>vo_success = False, vo_message = ''Invalid or already used OTP'',
                  vo_phoneNumber = None\<rparr>, db)
            | Some otpRecord \<Rightarrow>
                if now > otp_expiresAt otpRecord then
                  (\<lparr>vo_success = False,
                    vo_message = ''OTP has expired. Please request a new one.'',
                    vo_phoneNumber = None\<rparr>, db)
                else if otp_attemptCount otpRecord \<ge> 5 then
                  (\<lparr>vo_success = False,
                    vo_message = ''Too many failed attempts. Please request a new OTP.'',
                    vo_phoneNumber = None\<rparr>, db)
                else
                  (\<lparr>vo_success = True, vo_message = ''OTP verified successfully'',
                    vo_phoneNumber = Some normalizedPhone\<rparr>,
                   db\<lparr>otps :=
                        map (\<lambda>r. if otp_id r = otp_id otpRecord
                                  then r\<lparr>otp_used := True, otp_usedAt := Some (toStored now),
                                         otp_usedByFingerprint := Some fp\<rparr>
                                  else r) (otps db)\<rparr>))))"

section \<open>Sequences of rate-limit checks\<close>

text \<open>
  The \<^verbatim>\<open>where\<close> clause of the query of \<^verbatim>\<open>checkRateLimit\<close> under the config \<open>cfg\<close>: a
  row of the pair (identifier, endpoint) whose window started after \<open>now - windowMs\<close>,
  in whole seconds.
\<close>

definition inWindow :: "RateLimitConfig \<Rightarrow> int \<Rightarrow> string \<Rightarrow> string \<Rightarrow> RateLimit \<Rightarrow> bool" where
  "inWindow cfg now identifier endpoint r =
     (rl_identifier r = identifier \<and> rl_endpoint r = endpoint
      \<and> gt_ts (rl_windowStart r) (now - windowMs cfg))"

text \<open>
  A caller's successive checks of one (identifier, endpoint) pair, each with its clock
  reading and its generated id, none of them hitting a store failure.
\<close>

fun checkMany :: "(int \<times> string) list \<Rightarrow> string \<Rightarrow> string \<Rightarrow> db \<Rightarrow> RateLimitResult list \<times> db" where
  "checkMany [] identifier endpoint db = ([], db)"
| "checkMany ((now, newId) # cs) identifier endpoint db =
     (let (res, db1) = checkRateLimit False now newId identifier endpoint db;
          (rs, db2) = checkMany cs identifier endpoint db1
      in (res # rs, db2))"

definition windowRow :: "string \<Rightarrow> string \<Rightarrow> string \<Rightarrow> int \<Rightarrow> int \<Rightarrow> int \<Rightarrow> RateLimit" where
  "windowRow rid identifier endpoint c t0 l =
     \<lparr>rl_id = rid, rl_identifier = identifier, rl_endpoint = endpoint,
      rl_requestCount = c, rl_windowStart = t0, rl_lastRequest = l\<rparr>"

section \<open>The invariant of the refresh-token table\<close>

text \<open>
  A row is active when it is neither revoked nor rotated. The successor links are the
  pairs (id of a row, its \<open>newTokenId\<close>). The invariant: ids are distinct (the primary
  key), each family has at most one active row, and the successor links have no cycle.
  \<open>keepsSuccessors\<close> relates the table before and after an operation: a row that had a
  successor still has the same one, so that no row ever gets a second successor.
\<close>

definition activeToken :: "RefreshToken \<Rightarrow> bool" where
  "activeToken r = (\<not> rt_revoked r \<and> rt_rotatedAt r = None)"

definition oneActivePerFamily :: "RefreshToken list \<Rightarrow> bool" where
  "oneActivePerFamily ts =
     (\<forall>r1 \<in> set ts. \<forall>r2 \<in> set ts.
        activeToken r1 \<and> activeToken r2 \<and> rt_tokenFamily r1 = rt_tokenFamily r2 \<longrightarrow> r1 = r2)"

definition successorLinks :: "RefreshToken list \<Rightarrow> (string \<times> string) set" where
  "successorLinks ts = {(rt_id r, s) | r s. r \<in> set ts \<and> rt_newTokenId r = Some s}"

definition storeInv :: "RefreshToken list \<Rightarrow> bool" where
  "storeInv ts = (distinct (map rt_id ts) \<and> oneActivePerFamily ts \<and> acyclic (successorLinks ts))"

definition keepsSuccessors :: "RefreshToken list \<Rightarrow> RefreshToken list \<Rightarrow> bool" where
  "keepsSuccessors ts ts' =
     (\<forall>r \<in> set ts. \<forall>s. rt_newTokenId r = Some s \<longrightarrow>
        (\<exists>r' \<in> set ts'. rt_id r' = rt_id r \<and> rt_newTokenId r' = Some s))"

text \<open>
  The update and the inserted row of a successful rotation, named for the proofs.
\<close>

definition markRotated :: "string \<Rightarrow> int \<Rightarrow> string \<Rightarrow> RefreshToken \<Rightarrow> RefreshToken" where
  "markRotated oldId now newId r =
     (if rt_id r = oldId then r\<lparr>rt_rotatedAt := Some now, rt_newTokenId := Some newId\<rparr> else r)"

definition rotatedRow :: "crypto \<Rightarrow> int \<Rightarrow> entropy \<Rightarrow> DeviceInfo \<Rightarrow> RefreshToken \<Rightarrow> RefreshToken" where
  "rotatedRow cr now gen deviceInfo tokenRecord =
     \<lparr>rt_id = g_rtId gen, rt_tokenHash = hashToken cr (g_secureToken gen),
      rt_userId = rt_userId tokenRecord, rt_superuserId = rt_superuserId tokenRecord,
      rt_tokenFamily = rt_tokenFamily tokenRecord,
      rt_expiresAt = toStored (now + REFRESH_TOKEN_EXPIRY_DAYS * 24 * 60 * 60 * 1000),
      rt_revoked = False, rt_revokedAt = None, rt_rotatedAt = None,
      rt_newTokenId = None, rt_deviceFingerprint = fingerprint deviceInfo,
      rt_ipAddress = ipAddress deviceInfo, rt_userAgent = userAgent deviceInfo,
      rt_createdAt = toStored now\<rparr>"

section \<open>Runs of token operations\<close>

text \<open>
  The operations of the token service as data, and the store after a sequence of them
  (an \<^verbatim>\<open>enforceDeviceLimit\<close> that throws leaves the store as it was).
  \<open>revokedSecret\<close>: the secret resolves to a record that is marked revoked.
\<close>

datatype tokenOp =
    Issue bool int entropy "string option" "string option" DeviceInfo "string option"
  | Rotate int entropy string DeviceInfo
  | RevokeAll int "string option" "string option"
  | EnforceLimit int "string option" "string option" int

fun applyOp :: "crypto \<Rightarrow> tokenOp \<Rightarrow> db \<Rightarrow> db" where
  "applyOp cr (Issue familyUnique now gen userId superuserId dev fam) db =
     snd (generateTokenPair cr familyUnique now gen userId superuserId dev fam db)"
| "applyOp cr (Rotate now gen tok dev) db = snd (rotateRefreshToken cr now gen tok dev db)"
| "applyOp cr (RevokeAll now userId superuserId) db = revokeAllTokens now userId superuserId db"
| "applyOp cr (EnforceLimit now userId superuserId maxDevices) db =
     (case enforceDeviceLimit now userId superuserId maxDevices db of
        None \<Rightarrow> db | Some db' \<Rightarrow> db')"

definition run :: "crypto \<Rightarrow> tokenOp list \<Rightarrow> db \<Rightarrow> db" where
  "run cr ops db = foldl (\<lambda>d op. applyOp cr op d) db ops"

definition revokedSecret :: "crypto \<Rightarrow> string \<Rightarrow> RefreshToken list \<Rightarrow> bool" where
  "revokedSecret cr tok ts =
     (case find (\<lambda>r. rt_tokenHash r = hashToken cr tok) ts of
        None \<Rightarrow> False | Some rec \<Rightarrow> rt_revoked rec)"

section \<open>Example states\<close>

text \<open>
  Concrete inputs for the closed theorems below. The digest is replaced by an injective
  stand-in. \<open>dbLogin\<close> is the store after one login at time 0; \<open>dbRotated\<close> is the
  store after the login's refresh secret was rotated once at time 70000. A login writes
  its session row only on a store whose \<open>sessions.token_family\<close> has the unique index
  (\<open>familyUnique = True\<close>), so the states with a session row are states of such a store.
\<close>

definition crypto0 :: crypto where
  "crypto0 = \<lparr>JWT_SECRET = ''key'', hashToken = (\<lambda>s. ''h:'' @ s), hashOTP = (\<lambda>s. ''h:'' @ s)\<rparr>"

definition emptyDb :: db where
  "emptyDb = \<lparr>refreshTokens = [], sessions = [], otps = [], rateLimits = []\<rparr>"

definition deviceA :: DeviceInfo where
  "deviceA = \<lparr>fingerprint = ''fpA'', ipAddress = ''10.0.0.1'', userAgent = None\<rparr>"

definition deviceX :: DeviceInfo where
  "deviceX = \<lparr>fingerprint = ''fpX'', ipAddress = ''10.0.0.9'', userAgent = None\<rparr>"

definition gen1 :: entropy where
  "gen1 = \<lparr>g_tokenFamily = ''fam1'', g_sessionId = ''session_1'', g_jti = ''jti1'',
           g_secureToken = ''secretA'', g_rtId = ''rt_A''\<rparr>"

definition gen2 :: entropy where
  "gen2 = \<lparr>g_tokenFamily = ''fam2'', g_sessionId = ''session_2'', g_jti = ''jti2'',
           g_secureToken = ''secretB'', g_rtId = ''rt_B''\<rparr>"

definition gen3 :: entropy where
  "gen3 = \<lparr>g_tokenFamily = ''fam3'', g_sessionId = ''session_3'', g_jti = ''jti3'',
           g_secureToken = ''secretC'', g_rtId = ''rt_C''\<rparr>"

definition tokenA :: RefreshToken where
  "tokenA = \<lparr>rt_id = ''rt_A'', rt_tokenHash = ''h:secretA'', rt_userId = Some ''u1'',
     rt_superuserId = None, rt_tokenFamily = ''fam1'', rt_expiresAt = 2592000000,
     rt_revoked = False, rt_revokedAt = None, rt_rotatedAt = None, rt_newTokenId = None,
     rt_deviceFingerprint = ''fpA'', rt_ipAddress = ''10.0.0.1'', rt_userAgent = None,
     rt_createdAt = 0\<rparr>"

definition tokenB :: RefreshToken where
  "tokenB = \<lparr>rt_id = ''rt_B'', rt_tokenHash = ''h:secretB'', rt_userId = Some ''u1'',
     rt_superuserId = None, rt_tokenFamily = ''fam1'', rt_expiresAt = 2592070000,
     rt_revoked = False, rt_revokedAt = None, rt_rotatedAt = None, rt_newTokenId = None,
     rt_deviceFingerprint = ''fpA'', rt_ipAddress = ''10.0.0.1'', rt_userAgent = None,
     rt_createdAt = 70000\<rparr>"

definition tokenC :: RefreshToken where
  "tokenC = \<lparr>rt_id = ''rt_C'', rt_tokenHash = ''h:secretC'', rt_userId = Some ''u1'',
     rt_superuserId = None, rt_tokenFamily = ''fam1'', rt_expiresAt = 2592140000,
     rt_revoked = False, rt_revokedAt = None, rt_rotatedAt = None, rt_newTokenId = None,
     rt_deviceFingerprint = ''fpA'', rt_ipAddress = ''10.0.0.1'', rt_userAgent = None,
     rt_createdAt = 140000\<rparr>"

definition session1 :: Session where
  "session1 = \<lparr>s_id = ''session_1'', s_userId = Some ''u1'', s_superuserId = None,
     s_tokenFamily = ''fam1'', s_deviceFingerprint = ''fpA'', s_ipAddress = ''10.0.0.1'',
     s_userAgent = None, s_lastActivity = 0, s_sessionStarted = 0, s_refreshCount = 0,
     s_isActive = True, s_revoked = False, s_createdAt = 0\<rparr>"

definition dbLogin :: db where
  "dbLogin = \<lparr>refreshTokens = [tokenA], sessions = [session1], otps = [], rateLimits = []\<rparr>"

definition dbRotated :: db where
  "dbRotated =
     \<lparr>refreshTokens = [tokenA\<lparr>rt_rotatedAt := Some 70000, rt_newTokenId := Some ''rt_B''\<rparr>, tokenB],
      sessions = [session1\<lparr>s_lastActivity := 70000, s_refreshCount := 1\<rparr>],
      otps = [], rateLimits = []\<rparr>"

definition dbRevoked :: db where
  "dbRevoked =
     \<lparr>refreshTokens = [tokenA\<lparr>rt_revoked := True, rt_revokedAt := Some 50000\<rparr>],
      sessions = [session1], otps = [], rateLimits = []\<rparr>"

text \<open>\<open>dbOtp\<close> is the store after one code, 123456, was sent to +15551234567 at time 0.\<close>

definition otp1 :: Otp where
  "otp1 = \<lparr>otp_id = ''otp_1'', otp_phoneNumber = ''+15551234567'', otp_otpHash = ''h:123456'',
     otp_expiresAt = 600000, otp_used = False, otp_usedAt = None, otp_usedByFingerprint = None,
     otp_attemptCount = 0, otp_createdAt = 0\<rparr>"

definition dbOtp :: db where
  "dbOtp = \<lparr>refreshTokens = [], sessions = [], otps = [otp1], rateLimits = []\<rparr>"

text \<open>
  Six checks of the endpoint auth:verify-otp (5 requests per 60000 ms): the first at
  1500, whose stored window start is 1000, the last at 60900, just before the window
  ends at 61000.
\<close>

definition fiveMore :: "(int \<times> string) list" where
  "fiveMore = [(2000, ''rl_2''), (3000, ''rl_3''), (4000, ''rl_4''), (5500, ''rl_5''), (60900, ''rl_6'')]"

definition sixResults :: "RateLimitResult list" where
  "sixResults =
    [\<lparr>allowed = True, remainingRequests = Some 4, resetTime = Some 61500\<rparr>,
     \<lparr>allowed = True, remainingRequests = Some 3, resetTime = Some 61000\<rparr>,
     \<lparr>allowed = True, remainingRequests = Some 2, resetTime = Some 61000\<rparr>,
     \<lparr>allowed = True, remainingRequests = Some 1, resetTime = Some 61000\<rparr>,
     \<lparr>allowed = True, remainingRequests = Some 0, resetTime = Some 61000\<rparr>,
     \<lparr>allowed = False, remainingRequests = Some 0, resetTime = Some 61000\<rparr>]"

definition dbSix :: db where
  "dbSix = \<lparr>refreshTokens = [], sessions = [], otps = [],
     rateLimits = [\<lparr>rl_id = ''rl_1'', rl_identifier = ''10.0.0.1'',
                    rl_endpoint = ''auth:verify-otp'', rl_requestCount = 5,
                    rl_windowStart = 1000, rl_lastRequest = 5000\<rparr>]\<rparr>"

text \<open>\<open>dbTwoDevices\<close>: the account u1 logged in on two devices, at times 0 and 1000.\<close>

definition session2 :: Session where
  "session2 = \<lparr>s_id = ''session_2'', s_userId = Some ''u1'', s_superuserId = None,
     s_tokenFamily = ''fam2'', s_deviceFingerprint = ''fpX'', s_ipAddress = ''10.0.0.9'',
     s_userAgent = None, s_lastActivity = 1000, s_sessionStarted = 1000, s_refreshCount = 0,
     s_isActive = True, s_revoked = False, s_createdAt = 1000\<rparr>"

definition tokenD :: RefreshToken where
  "tokenD = \<lparr>rt_id = ''rt_D'', rt_tokenHash = ''h:secretD'', rt_userId = Some ''u1'',
     rt_superuserId = None, rt_tokenFamily = ''fam2'', rt_expiresAt = 2592001000,
     rt_revoked = False, rt_revokedAt = None, rt_rotatedAt = None, rt_newTokenId = None,
     rt_deviceFingerprint = ''fpX'', rt_ipAddress = ''10.0.0.9'', rt_userAgent = None,
     rt_createdAt = 1000\<rparr>"

definition dbTwoDevices :: db where
  "dbTwoDevices = \<lparr>refreshTokens = [tokenA, tokenD], sessions = [session1, session2],
     otps = [], rateLimits = []\<rparr>"

definition dbEvicted :: db where
  "dbEvicted =
     \<lparr>refreshTokens = [tokenA\<lparr>rt_revoked := True, rt_revokedAt := Some 9000\<rparr>],
      sessions = [session1\<lparr>s_revoked := True, s_isActive := False\<rparr>],
      otps = [], rateLimits = []\<rparr>"

definition gen4 :: entropy where
  "gen4 = \<lparr>g_tokenFamily = ''fam4'', g_sessionId = ''session_4'', g_jti = ''jti4'',
           g_secureToken = ''secretE'', g_rtId = ''rt_E''\<rparr>"

lemmas example_defs =
  dbEvicted_def gen4_def
  session2_def tokenD_def dbTwoDevices_def
  fiveMore_def sixResults_def dbSix_def
  otp1_def dbOtp_def
  crypto0_def emptyDb_def deviceA_def deviceX_def gen1_def gen2_def gen3_def
  tokenA_def tokenB_def tokenC_def session1_def dbLogin_def dbRotated_def dbRevoked_def

lemmas const_defs = toStored_def gt_ts_def
  ACCESS_TOKEN_EXPIRY_def REFRESH_TOKEN_EXPIRY_DAYS_def MAX_REFRESH_COUNT_def
  MIN_REFRESH_INTERVAL_def

lemmas otp_defs = sendOTP_def verifyOTP_def normalizePhoneNumber_def isE164_def isDigit_def
  incrementAttempts_def toStored_def gt_ts_def Let_def

lemmas token_service_defs =
  rotateRefreshToken_def rotateFresh_def graceReissue_def generateTokenPair_def
  insertRefreshToken_def upsertSession_def revokeTokensWhere_def revokeSessionsWhere_def
  jwt_sign_def accountType_def truthy_def const_defs Let_def

section \<open>The states of the examples are reached by the code\<close>

lemma dbLogin_reached:
  "generateTokenPair crypto0 True 0 gen1 (Some ''u1'') None deviceA None emptyDb =
     (Some \<lparr>accessToken =
              \<lparr>jwt_claims = \<lparr>c_userId = Some ''u1'', c_superuserId = None, c_type = ''user'',
                              c_jti = ''jti1'', c_sessionId = Some ''session_1''\<rparr>,
               jwt_iat = 0, jwt_exp = 900, jwt_key = ''key''\<rparr>,
            refreshToken = ''secretA'', expiresIn = 900\<rparr>, dbLogin)"
  by (simp add: token_service_defs example_defs)

text \<open>
  On a store without the unique index (schema.ts as written) the call writes the
  refresh-token row, then the upsert of the session throws: the promise rejects and no
  session row is written.
\<close>

lemma generateTokenPair_without_unique_index:
  "fst (generateTokenPair cr False now gen userId superuserId dev fam db) = None
   \<and> sessions (snd (generateTokenPair cr False now gen userId superuserId dev fam db)) = sessions db"
  by (simp add: generateTokenPair_def upsertSession_def Let_def split: option.splits)

lemma dbRotated_reached:
  "rotateRefreshToken crypto0 70000 gen2 ''secretA'' deviceA dbLogin =
     (Inr \<lparr>accessToken =
             \<lparr>jwt_claims = \<lparr>c_userId = Some ''u1'', c_superuserId = None, c_type = ''user'',
                             c_jti = ''jti2'', c_sessionId = None\<rparr>,
              jwt_iat = 70, jwt_exp = 970, jwt_key = ''key''\<rparr>,
           refreshToken = ''secretB'', expiresIn = 900\<rparr>, dbRotated)"
  by (simp add: token_service_defs example_defs)

lemma dbOtp_reached:
  "sendOTP crypto0 0 ''123456'' ''otp_1'' SendResolved ''(555) 123-4567'' ''1'' emptyDb =
     (\<lparr>so_success = True, so_waitTime = None, so_message = ''OTP sent successfully'',
       so_otpId = Some ''otp_1''\<rparr>, dbOtp)"
  by (simp add: otp_defs example_defs)

section \<open>Presenting a revoked secret\<close>

lemma find_revokeTokensWhere_hash:
  "find (\<lambda>r. rt_tokenHash r = h) (revokeTokensWhere P now ts) =
     map_option (\<lambda>r. if P r then r\<lparr>rt_revoked := True, rt_revokedAt := Some (toStored now)\<rparr> else r)
       (find (\<lambda>r. rt_tokenHash r = h) ts)"
  by (induction ts) (auto simp: revokeTokensWhere_def)

lemma rotate_revoked_eq:
  assumes "find (\<lambda>r. rt_tokenHash r = hashToken cr tok) (refreshTokens db) = Some rec"
      and "rt_revoked rec"
  shows "rotateRefreshToken cr now gen tok dev db =
          (Inl ''Token has been revoked'',
           db\<lparr>refreshTokens :=
                revokeTokensWhere (\<lambda>r. rt_tokenFamily r = rt_tokenFamily rec) now (refreshTokens db),
              sessions :=
                revokeSessionsWhere (\<lambda>s. s_tokenFamily s = rt_tokenFamily rec) (sessions db)\<rparr>)"
  using assms by (simp add: rotateRefreshToken_def)

text \<open>
  One presentation of a revoked secret: the error, the rows kept (same ids, same
  families), the family's refresh-token rows and session rows revoked, and the secret
  still resolving to a revoked record.
\<close>

lemma rotate_revoked_step:
  assumes "find (\<lambda>r. rt_tokenHash r = hashToken cr tok) (refreshTokens db) = Some rec"
      and "rt_revoked rec"
  shows "(let (res, db') = rotateRefreshToken cr now gen tok dev db in
           res = Inl ''Token has been revoked''
         \<and> map rt_id (refreshTokens db') = map rt_id (refreshTokens db)
         \<and> map rt_tokenFamily (refreshTokens db') = map rt_tokenFamily (refreshTokens db)
         \<and> (\<forall>r \<in> set (refreshTokens db'). rt_tokenFamily r = rt_tokenFamily rec \<longrightarrow> rt_revoked r)
         \<and> map s_id (sessions db') = map s_id (sessions db)
         \<and> map s_tokenFamily (sessions db') = map s_tokenFamily (sessions db)
         \<and> (\<forall>s \<in> set (sessions db'). s_tokenFamily s = rt_tokenFamily rec
               \<longrightarrow> s_revoked s \<and> \<not> s_isActive s)
         \<and> (\<exists>rec'. find (\<lambda>r. rt_tokenHash r = hashToken cr tok) (refreshTokens db') = Some rec'
               \<and> rt_revoked rec' \<and> rt_tokenFamily rec' = rt_tokenFamily rec))"
proof -
  let ?fam = "rt_tokenFamily rec"
  let ?ts = "revokeTokensWhere (\<lambda>r. rt_tokenFamily r = ?fam) now (refreshTokens db)"
  let ?ss = "revokeSessionsWhere (\<lambda>s. s_tokenFamily s = ?fam) (sessions db)"
  have toks: "map rt_id ?ts = map rt_id (refreshTokens db)"
             "map rt_tokenFamily ?ts = map rt_tokenFamily (refreshTokens db)"
             "\<forall>r \<in> set ?ts. rt_tokenFamily r = ?fam \<longrightarrow> rt_revoked r"
    by (auto simp: revokeTokensWhere_def)
  have sess: "map s_id ?ss = map s_id (sessions db)"
             "map s_tokenFamily ?ss = map s_tokenFamily (sessions db)"
             "\<forall>s \<in> set ?ss. s_tokenFamily s = ?fam \<longrightarrow> s_revoked s \<and> \<not> s_isActive s"
    by (auto simp: revokeSessionsWhere_def)
  have again: "\<exists>rec'. find (\<lambda>r. rt_tokenHash r = hashToken cr tok) ?ts = Some rec'
                  \<and> rt_revoked rec' \<and> rt_tokenFamily rec' = ?fam"
    using assms by (simp add: find_revokeTokensWhere_hash)
  show ?thesis
    unfolding rotate_revoked_eq[OF assms] using toks sess again by simp
qed

section \<open>The grace window\<close>

lemma graceReissue_taken:
  assumes "rt_rotatedAt rec = Some t" and "rt_newTokenId rec = Some sid" and "sid \<noteq> []"
      and "now - t < 10000"
      and "find (\<lambda>r. Some (rt_id r) = rt_newTokenId rec) ts = Some succ" and "\<not> rt_revoked succ"
  shows "graceReissue cr now gen tok rec ts =
           Some \<lparr>accessToken = jwt_sign
                   \<lparr>c_userId = rt_userId succ, c_superuserId = rt_superuserId succ,
                    c_type = accountType (rt_superuserId succ), c_jti = g_jti gen,
                    c_sessionId = None\<rparr> (JWT_SECRET cr) ACCESS_TOKEN_EXPIRY now,
                 refreshToken = tok, expiresIn = 15 * 60\<rparr>"
  using assms by (simp add: graceReissue_def truthy_def)

text \<open>
  C10. When the call takes the grace-window branch (the presented record is neither
  revoked nor expired, carries \<open>rotatedAt\<close> and a non-empty \<open>newTokenId\<close>, less than
  10000 ms have passed since \<open>rotatedAt\<close>, and the successor row exists and is not
  revoked), the store after the call is the store before it: no row is inserted, no
  refresh-token row and no session row (so neither \<open>refreshCount\<close> nor \<open>lastActivity\<close>)
  is changed.
\<close>

theorem rotate_grace_no_writes:
  assumes "find (\<lambda>r. rt_tokenHash r = hashToken cr tok) (refreshTokens db) = Some rec"
      and "\<not> rt_revoked rec" and "\<not> now > rt_expiresAt rec"
      and "rt_rotatedAt rec = Some t" and "rt_newTokenId rec = Some sid" and "sid \<noteq> []"
      and "now - t < 10000"
      and "find (\<lambda>r. Some (rt_id r) = rt_newTokenId rec) (refreshTokens db) = Some succ"
      and "\<not> rt_revoked succ"
  shows "snd (rotateRefreshToken cr now gen tok dev db) = db"
  using assms(1-3) graceReissue_taken[OF assms(4-9)]
  by (simp add: rotateRefreshToken_def)

theorem rotate_grace_no_writes_witness:
  "find (\<lambda>r. rt_tokenHash r = hashToken crypto0 ''secretA'') (refreshTokens dbRotated)
     = Some (tokenA\<lparr>rt_rotatedAt := Some 70000, rt_newTokenId := Some ''rt_B''\<rparr>)
   \<and> \<not> rt_revoked (tokenA\<lparr>rt_rotatedAt := Some 70000, rt_newTokenId := Some ''rt_B''\<rparr>)
   \<and> \<not> 75000 > rt_expiresAt (tokenA\<lparr>rt_rotatedAt := Some 70000, rt_newTokenId := Some ''rt_B''\<rparr>)
   \<and> (75000::int) - 70000 < 10000
   \<and> find (\<lambda>r. Some (rt_id r) = Some ''rt_B'') (refreshTokens dbRotated) = Some tokenB
   \<and> \<not> rt_revoked tokenB
   \<and> snd (rotateRefreshToken crypto0 75000 gen3 ''secretA'' deviceA dbRotated) = dbRotated"
proof -
  let ?rec = "tokenA\<lparr>rt_rotatedAt := Some 70000, rt_newTokenId := Some ''rt_B''\<rparr>"
  have h1: "find (\<lambda>r. rt_tokenHash r = hashToken crypto0 ''secretA'') (refreshTokens dbRotated) = Some ?rec"
    by (simp add: example_defs)
  have h2: "\<not> rt_revoked ?rec" and h3: "\<not> 75000 > rt_expiresAt ?rec"
    by (simp_all add: example_defs)
  have h4: "rt_rotatedAt ?rec = Some 70000" and h5: "rt_newTokenId ?rec = Some ''rt_B''"
    and h6: "''rt_B'' \<noteq> []" and h7: "(75000::int) - 70000 < 10000"
    by simp_all
  have h8: "find (\<lambda>r. Some (rt_id r) = rt_newTokenId ?rec) (refreshTokens dbRotated) = Some tokenB"
    by (simp add: example_defs)
  have h9: "\<not> rt_revoked tokenB" by (simp add: example_defs)
  show ?thesis
    using rotate_grace_no_writes[OF h1 h2 h3 h4 h5 h6 h7 h8 h9, of gen3 deviceA] h1 h2 h3 h7 h8 h9
    by simp
qed

text \<open>
  What the grace-window branch returns: the secret the caller presented, and an access
  token built from the successor row's account.
\<close>

lemma rotate_grace_reissue:
  assumes "find (\<lambda>r. rt_tokenHash r = hashToken cr tok) (refreshTokens db) = Some rec"
      and "\<not> rt_revoked rec" and "\<not> now > rt_expiresAt rec"
      and "rt_rotatedAt rec = Some t" and "rt_newTokenId rec = Some sid" and "sid \<noteq> []"
      and "now - t < 10000"
      and "find (\<lambda>r. Some (rt_id r) = rt_newTokenId rec) (refreshTokens db) = Some succ"
      and "\<not> rt_revoked succ"
  shows "fst (rotateRefreshToken cr now gen tok dev db) =
           Inr \<lparr>accessToken = jwt_sign
                   \<lparr>c_userId = rt_userId succ, c_superuserId = rt_superuserId succ,
                    c_type = accountType (rt_superuserId succ), c_jti = g_jti gen,
                    c_sessionId = None\<rparr> (JWT_SECRET cr) ACCESS_TOKEN_EXPIRY now,
                 refreshToken = tok, expiresIn = 15 * 60\<rparr>"
  using assms(1-3) graceReissue_taken[OF assms(4-9)]
  by (simp add: rotateRefreshToken_def)

section \<open>A rotated secret presented after the grace window\<close>

text \<open>
  C1. The grace-window half holds (\<open>rotate_grace_reissue\<close> above). The other half does
  not: on \<open>dbRotated\<close>, where secret A was rotated at 70000 into B, presenting A again
  at 140000 (70 s after the rotation, with the matching fingerprint) is served as an
  ordinary rotation. The call returns a new pair with the secret C, overwrites A's
  \<open>newTokenId\<close> with C's id, and revokes nothing: A, B and C and the session stay
  unrevoked.
\<close>

theorem stale_secret_rotates_again:
  "rotateRefreshToken crypto0 140000 gen3 ''secretA'' deviceA dbRotated =
     (Inr \<lparr>accessToken =
             \<lparr>jwt_claims = \<lparr>c_userId = Some ''u1'', c_superuserId = None, c_type = ''user'',
                             c_jti = ''jti3'', c_sessionId = None\<rparr>,
              jwt_iat = 140, jwt_exp = 1040, jwt_key = ''key''\<rparr>,
           refreshToken = ''secretC'', expiresIn = 900\<rparr>,
      \<lparr>refreshTokens =
         [tokenA\<lparr>rt_rotatedAt := Some 140000, rt_newTokenId := Some ''rt_C''\<rparr>, tokenB, tokenC],
       sessions = [session1\<lparr>s_lastActivity := 140000, s_refreshCount := 2\<rparr>],
       otps = [], rateLimits = []\<rparr>)
   \<and> \<not> rt_revoked tokenA \<and> \<not> rt_revoked tokenB \<and> \<not> rt_revoked tokenC
   \<and> s_isActive session1 \<and> \<not> s_revoked session1"
  by (simp add: token_service_defs example_defs)

text \<open>
  In general: a call that presents a record not marked revoked, from a device whose
  fingerprint matches the record's, revokes nothing. Every refresh-token row revoked
  after the call has the id of a row revoked before it, and the \<open>revoked\<close> and
  \<open>isActive\<close> flags of the sessions are unchanged. So no presentation of a rotated
  secret, inside or outside the grace window, revokes the family.
\<close>

lemma touch_session_flags:
  "map s_revoked (map (\<lambda>s. if s_id s = sid
                    then s\<lparr>s_lastActivity := toStored now, s_refreshCount := n\<rparr> else s) ss)
     = map s_revoked ss
   \<and> map s_isActive (map (\<lambda>s. if s_id s = sid
                    then s\<lparr>s_lastActivity := toStored now, s_refreshCount := n\<rparr> else s) ss)
     = map s_isActive ss"
  by (induction ss) simp_all

lemma rotateFresh_session_flags:
  "map s_revoked (sessions (snd (rotateFresh cr now gen dev rec db))) = map s_revoked (sessions db)
   \<and> map s_isActive (sessions (snd (rotateFresh cr now gen dev rec db)))
       = map s_isActive (sessions db)"
proof (cases "find (\<lambda>s. s_tokenFamily s = rt_tokenFamily rec) (sessions db)")
  case None
  then show ?thesis by (simp add: rotateFresh_def)
next
  case (Some session)
  then have "sessions (snd (rotateFresh cr now gen dev rec db)) = sessions db
     \<or> sessions (snd (rotateFresh cr now gen dev rec db)) =
          map (\<lambda>s. if s_id s = s_id session
                    then s\<lparr>s_lastActivity := toStored now, s_refreshCount := s_refreshCount session + 1\<rparr>
                    else s) (sessions db)"
    by (simp add: rotateFresh_def Let_def split: option.splits)
  then show ?thesis
  proof
    assume "sessions (snd (rotateFresh cr now gen dev rec db)) = sessions db"
    then show ?thesis by simp
  next
    assume e: "sessions (snd (rotateFresh cr now gen dev rec db)) =
          map (\<lambda>s. if s_id s = s_id session
                    then s\<lparr>s_lastActivity := toStored now, s_refreshCount := s_refreshCount session + 1\<rparr>
                    else s) (sessions db)"
    show ?thesis unfolding e by (rule touch_session_flags)
  qed
qed

lemma rotateFresh_tokens_match:
  assumes "rt_deviceFingerprint rec = fingerprint dev"
  shows "refreshTokens (snd (rotateFresh cr now gen dev rec db)) = refreshTokens db
       \<or> refreshTokens (snd (rotateFresh cr now gen dev rec db)) =
           map (markRotated (rt_id rec) (toStored now) (g_rtId gen))
             (refreshTokens db @ [rotatedRow cr now gen dev rec])"
  using assms
  by (simp add: rotateFresh_def Let_def insertRefreshToken_def rotatedRow_def
        markRotated_def[abs_def] split: option.splits)

lemma rotate_matching_device_revokes_nothing:
  assumes "find (\<lambda>r. rt_tokenHash r = hashToken cr tok) (refreshTokens db) = Some rec"
      and "\<not> rt_revoked rec" and "rt_deviceFingerprint rec = fingerprint dev"
  shows "(\<forall>r \<in> set (refreshTokens (snd (rotateRefreshToken cr now gen tok dev db))).
            rt_revoked r \<longrightarrow> (\<exists>r0 \<in> set (refreshTokens db). rt_id r0 = rt_id r \<and> rt_revoked r0))
       \<and> map s_revoked (sessions (snd (rotateRefreshToken cr now gen tok dev db)))
            = map s_revoked (sessions db)
       \<and> map s_isActive (sessions (snd (rotateRefreshToken cr now gen tok dev db)))
            = map s_isActive (sessions db)"
proof (cases "now > rt_expiresAt rec \<or> graceReissue cr now gen tok rec (refreshTokens db) \<noteq> None")
  case True
  with assms have "snd (rotateRefreshToken cr now gen tok dev db) = db"
    by (auto simp: rotateRefreshToken_def)
  then show ?thesis by auto
next
  case False
  with assms
  have eq: "rotateRefreshToken cr now gen tok dev db = rotateFresh cr now gen dev rec db"
    by (simp add: rotateRefreshToken_def)
  have "\<forall>r \<in> set (refreshTokens (snd (rotateFresh cr now gen dev rec db))).
            rt_revoked r \<longrightarrow> (\<exists>r0 \<in> set (refreshTokens db). rt_id r0 = rt_id r \<and> rt_revoked r0)"
    using rotateFresh_tokens_match[OF assms(3), of cr now gen db]
  proof
    assume "refreshTokens (snd (rotateFresh cr now gen dev rec db)) = refreshTokens db"
    then show ?thesis by auto
  next
    assume "refreshTokens (snd (rotateFresh cr now gen dev rec db)) =
           map (markRotated (rt_id rec) (toStored now) (g_rtId gen))
             (refreshTokens db @ [rotatedRow cr now gen dev rec])"
    then show ?thesis
      by (auto simp: markRotated_def rotatedRow_def split: if_splits)
  qed
  with rotateFresh_session_flags[of cr now gen dev rec db] show ?thesis
    unfolding eq by blast
qed

section \<open>Fingerprint mismatch\<close>

text \<open>
  C3. On \<open>dbRotated\<close>, presenting the active secret B at 140000 from a device whose
  fingerprint differs passes every earlier check; the call returns
  "Device fingerprint mismatch" and revokes both refresh-token rows of the family, but
  the family's session row is left as it was: still \<open>isActive\<close> and not \<open>revoked\<close>.
\<close>

theorem mismatch_leaves_session_active:
  "rotateRefreshToken crypto0 140000 gen3 ''secretB'' deviceX dbRotated =
     (Inl ''Device fingerprint mismatch'',
      \<lparr>refreshTokens =
         [tokenA\<lparr>rt_revoked := True, rt_revokedAt := Some 140000, rt_rotatedAt := Some 70000,
                 rt_newTokenId := Some ''rt_B''\<rparr>,
          tokenB\<lparr>rt_revoked := True, rt_revokedAt := Some 140000\<rparr>],
       sessions = [session1\<lparr>s_lastActivity := 70000, s_refreshCount := 1\<rparr>],
       otps = [], rateLimits = []\<rparr>)
   \<and> s_isActive (session1\<lparr>s_lastActivity := 70000, s_refreshCount := 1\<rparr>)
   \<and> \<not> s_revoked (session1\<lparr>s_lastActivity := 70000, s_refreshCount := 1\<rparr>)"
  by (simp add: token_service_defs example_defs)

text \<open>In general: no call that returns "Device fingerprint mismatch" writes to the sessions.\<close>

lemma mismatch_never_touches_sessions:
  assumes "fst (rotateRefreshToken cr now gen tok dev db) = Inl ''Device fingerprint mismatch''"
  shows "sessions (snd (rotateRefreshToken cr now gen tok dev db)) = sessions db"
  using assms
  by (auto simp: rotateRefreshToken_def rotateFresh_def Let_def
      split: option.splits if_splits)

section \<open>The claims of the access tokens\<close>

text \<open>
  C9. The access token of \<^verbatim>\<open>generateTokenPair\<close> carries a session id
  (\<open>generateTokenPair_claims\<close> below), but the tokens of \<^verbatim>\<open>rotateRefreshToken\<close> do not:
  both the token of a successful rotation (first conjunct) and the token of the
  grace-window branch (second conjunct) are signed without a \<open>sessionId\<close> claim.
\<close>

theorem rotation_tokens_lack_sessionId:
  "fst (rotateRefreshToken crypto0 70000 gen2 ''secretA'' deviceA dbLogin) =
     Inr \<lparr>accessToken =
            \<lparr>jwt_claims = \<lparr>c_userId = Some ''u1'', c_superuserId = None, c_type = ''user'',
                            c_jti = ''jti2'', c_sessionId = None\<rparr>,
             jwt_iat = 70, jwt_exp = 970, jwt_key = ''key''\<rparr>,
          refreshToken = ''secretB'', expiresIn = 900\<rparr>
   \<and> fst (rotateRefreshToken crypto0 75000 gen3 ''secretA'' deviceA dbRotated) =
     Inr \<lparr>accessToken =
            \<lparr>jwt_claims = \<lparr>c_userId = Some ''u1'', c_superuserId = None, c_type = ''user'',
                            c_jti = ''jti3'', c_sessionId = None\<rparr>,
             jwt_iat = 75, jwt_exp = 975, jwt_key = ''key''\<rparr>,
          refreshToken = ''secretA'', expiresIn = 900\<rparr>"
  by (simp add: token_service_defs example_defs)

text \<open>
  In general: every pair \<^verbatim>\<open>rotateRefreshToken\<close> returns has the issue time, the expiry
  900 s later, the token id of the call and the signing key, and no session id.
\<close>

lemma rotate_pair_claims:
  assumes "fst (rotateRefreshToken cr now gen tok dev db) = Inr pair"
  shows "c_sessionId (jwt_claims (accessToken pair)) = None
       \<and> c_jti (jwt_claims (accessToken pair)) = g_jti gen
       \<and> jwt_iat (accessToken pair) = now div 1000
       \<and> jwt_exp (accessToken pair) = jwt_iat (accessToken pair) + 15 * 60
       \<and> jwt_key (accessToken pair) = JWT_SECRET cr"
  using assms
  by (auto simp: rotateRefreshToken_def rotateFresh_def graceReissue_def jwt_sign_def Let_def
        ACCESS_TOKEN_EXPIRY_def
      split: option.splits if_splits)

lemma generateTokenPair_claims:
  assumes "fst (generateTokenPair cr familyUnique now gen userId superuserId dev fam db) = Some pair"
  shows "jwt_claims (accessToken pair) =
           \<lparr>c_userId = userId, c_superuserId = superuserId, c_type = accountType superuserId,
            c_jti = g_jti gen, c_sessionId = Some (g_sessionId gen)\<rparr>
       \<and> jwt_iat (accessToken pair) = now div 1000
       \<and> jwt_exp (accessToken pair) = jwt_iat (accessToken pair) + 15 * 60
       \<and> jwt_key (accessToken pair) = JWT_SECRET cr"
  using assms
  by (auto simp: generateTokenPair_def jwt_sign_def Let_def ACCESS_TOKEN_EXPIRY_def
      split: option.splits)

section \<open>sendOTP: delivery before persistence\<close>

text \<open>
  C7. When the race between the SMS send and the 10000 ms timer does not settle with
  the send resolved (the send rejected, or the timer fired first), \<^verbatim>\<open>sendOTP\<close> returns
  \<open>success = false\<close> and the store is unchanged: no OTP row is stored by that call.
\<close>

theorem sendOTP_failed_delivery_stores_nothing:
  assumes "sms \<noteq> SendResolved"
  shows "\<not> so_success (fst (sendOTP cr now otp otpId sms phoneNumber countryCode db))
       \<and> snd (sendOTP cr now otp otpId sms phoneNumber countryCode db) = db"
  using assms by (simp add: sendOTP_def Let_def split: option.splits)

theorem sendOTP_failed_delivery_stores_nothing_witness:
  "TimeoutFired \<noteq> SendResolved
   \<and> \<not> so_success (fst (sendOTP crypto0 0 ''123456'' ''otp_1'' TimeoutFired ''(555) 123-4567'' ''1'' emptyDb))
   \<and> snd (sendOTP crypto0 0 ''123456'' ''otp_1'' TimeoutFired ''(555) 123-4567'' ''1'' emptyDb) = emptyDb"
proof -
  have h: "TimeoutFired \<noteq> SendResolved" by simp
  show ?thesis
    using sendOTP_failed_delivery_stores_nothing[OF h, of crypto0 0 "''123456''" "''otp_1''" "''(555) 123-4567''" "''1''" emptyDb] h
    by simp
qed

section \<open>verifyOTP: the attempt counter\<close>

text \<open>
  A verification that fails without the store throwing writes nothing: the increment
  of \<open>attempt_count\<close> sits in the \<^verbatim>\<open>catch\<close> block, which the failure returns never
  reach.
\<close>

lemma verifyOTP_failure_without_throw_writes_nothing:
  assumes "\<not> txThrows"
      and "\<not> vo_success (fst (verifyOTP cr txThrows updateThrows now phoneNumber otp fp countryCode db))"
  shows "snd (verifyOTP cr txThrows updateThrows now phoneNumber otp fp countryCode db) = db"
  using assms by (simp add: verifyOTP_def Let_def split: option.splits if_splits)

text \<open>
  C4. On \<open>dbOtp\<close>, a verification with the wrong code 000000 returns
  "Invalid or already used OTP" and leaves the store as it is; after five such calls the
  store is still \<open>dbOtp\<close>, whose only row has \<open>attemptCount = 0\<close>; the sixth call, with
  the right code 123456, succeeds and marks the row used.
\<close>

theorem wrong_codes_do_not_count:
  "verifyOTP crypto0 False False 1000 ''5551234567'' ''000000'' ''fpA'' ''1'' dbOtp =
     (\<lparr>vo_success = False, vo_message = ''Invalid or already used OTP'', vo_phoneNumber = None\<rparr>,
      dbOtp)
   \<and> foldl (\<lambda>d t. snd (verifyOTP crypto0 False False t ''5551234567'' ''000000'' ''fpA'' ''1'' d))
        dbOtp [1000, 2000, 3000, 4000, 5000] = dbOtp
   \<and> map otp_attemptCount (otps dbOtp) = [0]
   \<and> verifyOTP crypto0 False False 6000 ''5551234567'' ''123456'' ''fpA'' ''1'' dbOtp =
     (\<lparr>vo_success = True, vo_message = ''OTP verified successfully'',
       vo_phoneNumber = Some ''+15551234567''\<rparr>,
      dbOtp\<lparr>otps := [otp1\<lparr>otp_used := True, otp_usedAt := Some 6000,
                            otp_usedByFingerprint := Some ''fpA''\<rparr>]\<rparr>)"
proof -
  have wrong: "\<And>t. verifyOTP crypto0 False False t ''5551234567'' ''000000'' ''fpA'' ''1'' dbOtp =
     (\<lparr>vo_success = False, vo_message = ''Invalid or already used OTP'', vo_phoneNumber = None\<rparr>,
      dbOtp)"
    by (simp add: otp_defs example_defs)
  have right: "verifyOTP crypto0 False False 6000 ''5551234567'' ''123456'' ''fpA'' ''1'' dbOtp =
     (\<lparr>vo_success = True, vo_message = ''OTP verified successfully'',
       vo_phoneNumber = Some ''+15551234567''\<rparr>,
      dbOtp\<lparr>otps := [otp1\<lparr>otp_used := True, otp_usedAt := Some 6000,
                            otp_usedByFingerprint := Some ''fpA''\<rparr>]\<rparr>)"
    by (simp add: otp_defs example_defs)
  have cnt: "map otp_attemptCount (otps dbOtp) = [0]"
    by (simp add: example_defs)
  show ?thesis using right cnt by (simp add: wrong)
qed

section \<open>checkRateLimit: the fixed window\<close>

lemma configFor_bounds:
  assumes "configFor e = Some cfg"
  shows "3 \<le> maxRequests cfg \<and> 60000 \<le> windowMs cfg"
  using assms by (auto simp: configFor_def RATE_LIMIT_CONFIGS_def split: if_splits)

text \<open>Whole seconds: the window of a row written at t0 is open until its stored start plus
  the window length.\<close>

lemma toStored_le: "toStored t \<le> t \<and> t < toStored t + 1000"
  unfolding toStored_def by presburger

lemma gt_ts_mono:
  assumes a: "gt_ts c (t - w)" and b: "t0 \<le> t"
  shows "gt_ts c (t0 - w)"
proof -
  have "(t0 - w) div 1000 \<le> (t - w) div 1000" using b by (intro zdiv_mono1) simp_all
  with a show ?thesis by (simp add: gt_ts_def)
qed

lemma gt_ts_window: "gt_ts (toStored t0) (t - w) = (t < toStored t0 + w)"
proof -
  define q where "q = (t - w) div 1000"
  define r where "r = (t - w) mod 1000"
  define k where "k = t0 div 1000"
  have e: "t - w = q * 1000 + r" by (simp add: q_def r_def)
  have r: "0 \<le> r" "r < 1000" by (simp_all add: r_def)
  have "(q < k) = (q * 1000 + r < k * 1000)" using r by arith
  then have "(q < k) = (t - w < k * 1000)" using e by simp
  then show ?thesis by (auto simp: gt_ts_def toStored_def q_def k_def)
qed

text \<open>The three outcomes of one check.\<close>

lemma check_create:
  assumes cfg: "configFor endpoint = Some cfg"
      and "find (inWindow cfg now identifier endpoint) (rateLimits db) = None"
      and "newId \<notin> set (map rl_id (rateLimits db))"
  shows "checkRateLimit False now newId identifier endpoint db =
          (\<lparr>allowed = True, remainingRequests = Some (maxRequests cfg - 1),
            resetTime = Some (now + windowMs cfg)\<rparr>,
           db\<lparr>rateLimits := rateLimits db @ [windowRow newId identifier endpoint 1 (toStored now) (toStored now)]\<rparr>)"
  using assms unfolding inWindow_def[abs_def] checkRateLimit_def windowRow_def
  by (simp add: Let_def)

lemma check_increment:
  assumes cfg: "configFor endpoint = Some cfg"
      and "find (inWindow cfg now identifier endpoint) (rateLimits db) = Some existing"
      and "rl_requestCount existing < maxRequests cfg"
  shows "checkRateLimit False now newId identifier endpoint db =
          (\<lparr>allowed = True,
            remainingRequests = Some (maxRequests cfg - rl_requestCount existing - 1),
            resetTime = Some (rl_windowStart existing + windowMs cfg)\<rparr>,
           db\<lparr>rateLimits :=
                map (\<lambda>r. if rl_id r = rl_id existing
                          then r\<lparr>rl_requestCount := rl_requestCount existing + 1,
                                 rl_lastRequest := toStored now\<rparr>
                          else r) (rateLimits db)\<rparr>)"
  using assms unfolding inWindow_def[abs_def] checkRateLimit_def
  by (simp add: Let_def)

lemma check_deny:
  assumes cfg: "configFor endpoint = Some cfg"
      and "find (inWindow cfg now identifier endpoint) (rateLimits db) = Some existing"
      and "rl_requestCount existing \<ge> maxRequests cfg"
  shows "checkRateLimit False now newId identifier endpoint db =
          (\<lparr>allowed = False, remainingRequests = Some 0,
            resetTime = Some (rl_windowStart existing + windowMs cfg)\<rparr>, db)"
  using assms unfolding inWindow_def[abs_def] checkRateLimit_def
  by (simp add: Let_def)

lemma find_append:
  "find P (xs @ ys) = (case find P xs of None \<Rightarrow> find P ys | Some x \<Rightarrow> Some x)"
  by (induction xs) auto

text \<open>Rows that are out of the window at t0 stay out of it later.\<close>

lemma find_window_later:
  assumes "find (inWindow cfg t0 identifier endpoint) pre = None" and "t0 \<le> t"
  shows "find (inWindow cfg t identifier endpoint) pre = None"
  using assms by (auto simp: find_None_iff inWindow_def dest: gt_ts_mono)

lemma find_window_row:
  assumes "find (inWindow cfg t0 identifier endpoint) pre = None" and "t0 \<le> t"
      and "t < toStored t0 + windowMs cfg"
  shows "find (inWindow cfg t identifier endpoint) (pre @ [windowRow rid identifier endpoint c (toStored t0) l])
           = Some (windowRow rid identifier endpoint c (toStored t0) l)"
  using find_window_later[OF assms(1,2)] assms(3) gt_ts_window[of t0 t "windowMs cfg"]
  by (simp add: find_append inWindow_def windowRow_def)

lemma find_window_elapsed:
  assumes "find (inWindow cfg t0 identifier endpoint) pre = None"
      and "toStored t0 + windowMs cfg \<le> t"
      and "60000 \<le> windowMs cfg"
  shows "find (inWindow cfg t identifier endpoint) (pre @ [windowRow rid identifier endpoint c (toStored t0) l])
           = None"
proof -
  have "t0 \<le> t" using assms(2,3) toStored_le[of t0] by linarith
  from find_window_later[OF assms(1) this] assms(2) gt_ts_window[of t0 t "windowMs cfg"]
  show ?thesis
    by (simp add: find_append inWindow_def windowRow_def)
qed

lemma step_in_window:
  assumes cfg: "configFor endpoint = Some cfg"
      and pre: "find (inWindow cfg t0 identifier endpoint) pre = None"
      and fresh: "rid \<notin> set (map rl_id pre)"
      and db: "rateLimits db = pre @ [windowRow rid identifier endpoint c (toStored t0) l]"
      and t: "t0 \<le> t" "t < toStored t0 + windowMs cfg"
  shows "checkRateLimit False t nid identifier endpoint db =
          (if c < maxRequests cfg
           then (\<lparr>allowed = True,
                  remainingRequests = Some (maxRequests cfg - c - 1),
                  resetTime = Some (toStored t0 + windowMs cfg)\<rparr>,
                 db\<lparr>rateLimits := pre @ [windowRow rid identifier endpoint (c + 1) (toStored t0) (toStored t)]\<rparr>)
           else (\<lparr>allowed = False, remainingRequests = Some 0,
                  resetTime = Some (toStored t0 + windowMs cfg)\<rparr>, db))"
proof -
  let ?R = "windowRow rid identifier endpoint c (toStored t0) l"
  have f: "find (inWindow cfg t identifier endpoint) (rateLimits db) = Some ?R"
    unfolding db
    by (rule find_window_row[OF pre t])
  have upd: "map (\<lambda>r. if rl_id r = rl_id ?R
                          then r\<lparr>rl_requestCount := rl_requestCount ?R + 1, rl_lastRequest := toStored t\<rparr>
                          else r) (rateLimits db)
             = pre @ [windowRow rid identifier endpoint (c + 1) (toStored t0) (toStored t)]"
    unfolding db using fresh by (auto simp: windowRow_def intro!: map_idI)
  show ?thesis
  proof (cases "c < maxRequests cfg")
    case True
    then have "rl_requestCount ?R < maxRequests cfg" by (simp add: windowRow_def)
    from check_increment[OF cfg f this, of nid] upd True show ?thesis by (simp add: windowRow_def)
  next
    case False
    then have "rl_requestCount ?R \<ge> maxRequests cfg" by (simp add: windowRow_def)
    from check_deny[OF cfg f this, of nid] False show ?thesis by (simp add: windowRow_def)
  qed
qed

text \<open>
  Checks inside a window that holds the row of count \<open>c\<close>: the k-th of them is allowed
  exactly when \<open>c + k\<close> is below the ceiling, and the row's count stops at the ceiling.
\<close>

lemma checkMany_in_window:
  assumes cfg: "configFor endpoint = Some cfg"
      and pre: "find (inWindow cfg t0 identifier endpoint) pre = None"
      and fresh: "rid \<notin> set (map rl_id pre)"
      and db: "rateLimits db = pre @ [windowRow rid identifier endpoint c (toStored t0) l]"
      and cs: "\<forall>(t, nid) \<in> set cs. t0 \<le> t \<and> t < toStored t0 + windowMs cfg"
      and run: "checkMany cs identifier endpoint db = (rs, db')"
  shows "length rs = length cs
       \<and> (\<forall>k < length rs.
             allowed (rs ! k) = (c + int k < maxRequests cfg)
           \<and> (\<not> allowed (rs ! k) \<longrightarrow> remainingRequests (rs ! k) = Some 0)
           \<and> resetTime (rs ! k) = Some (toStored t0 + windowMs cfg))
       \<and> (\<exists>l'. db' = db\<lparr>rateLimits := pre @ [windowRow rid identifier endpoint
              (min (c + int (length cs)) (max c (maxRequests cfg))) (toStored t0) l']\<rparr>)"
  using db cs run
proof (induction cs arbitrary: db c l rs)
  case Nil
  then show ?case by (auto intro: exI[of _ l])
next
  case (Cons a cs)
  obtain t nid where a: "a = (t, nid)" by (cases a)
  let ?M = "maxRequests cfg"
  let ?W = "windowMs cfg"
  from Cons.prems(2) a have t: "t0 \<le> t" "t < toStored t0 + ?W" by auto
  from Cons.prems(2) have cs': "\<forall>(t, nid) \<in> set cs. t0 \<le> t \<and> t < toStored t0 + ?W" by auto
  note step = step_in_window[OF cfg pre fresh Cons.prems(1) t, of nid]
  show ?case
  proof (cases "c < ?M")
    case True
    let ?db1 = "db\<lparr>rateLimits := pre @ [windowRow rid identifier endpoint (c + 1) (toStored t0) (toStored t)]\<rparr>"
    obtain rs1 where run1: "checkMany cs identifier endpoint ?db1 = (rs1, db')"
      and rs: "rs = \<lparr>allowed = True, remainingRequests = Some (?M - c - 1),
                     resetTime = Some (toStored t0 + ?W)\<rparr> # rs1"
      using Cons.prems(3) True step unfolding a
      by (auto simp: Let_def split: prod.splits)
    have db1: "rateLimits ?db1 = pre @ [windowRow rid identifier endpoint (c + 1) (toStored t0) (toStored t)]" by simp
    from Cons.IH[OF db1 cs' run1]
    have len: "length rs1 = length cs"
      and ks: "\<forall>k < length rs1. allowed (rs1 ! k) = (c + 1 + int k < ?M)
           \<and> (\<not> allowed (rs1 ! k) \<longrightarrow> remainingRequests (rs1 ! k) = Some 0)
           \<and> resetTime (rs1 ! k) = Some (toStored t0 + ?W)"
      and fin: "\<exists>l'. db' = ?db1\<lparr>rateLimits := pre @ [windowRow rid identifier endpoint
              (min (c + 1 + int (length cs)) (max (c + 1) ?M)) (toStored t0) l']\<rparr>"
      by auto
    have m: "min (c + 1 + int (length cs)) (max (c + 1) ?M)
           = min (c + int (length (a # cs))) (max c ?M)"
      using True by auto
    have "\<forall>k < length rs. allowed (rs ! k) = (c + int k < ?M)
           \<and> (\<not> allowed (rs ! k) \<longrightarrow> remainingRequests (rs ! k) = Some 0)
           \<and> resetTime (rs ! k) = Some (toStored t0 + ?W)"
    proof (intro allI impI)
      fix k assume "k < length rs"
      show "allowed (rs ! k) = (c + int k < ?M)
           \<and> (\<not> allowed (rs ! k) \<longrightarrow> remainingRequests (rs ! k) = Some 0)
           \<and> resetTime (rs ! k) = Some (toStored t0 + ?W)"
      proof (cases k)
        case 0
        then show ?thesis using True by (simp add: rs)
      next
        case (Suc j)
        with \<open>k < length rs\<close> have "j < length rs1" by (simp add: rs)
        with ks have "allowed (rs1 ! j) = (c + 1 + int j < ?M)
           \<and> (\<not> allowed (rs1 ! j) \<longrightarrow> remainingRequests (rs1 ! j) = Some 0)
           \<and> resetTime (rs1 ! j) = Some (toStored t0 + ?W)" by blast
        then show ?thesis by (simp add: rs Suc add.assoc)
      qed
    qed
    moreover have "length rs = length (a # cs)" by (simp add: rs len)
    moreover have "\<exists>l'. db' = db\<lparr>rateLimits := pre @ [windowRow rid identifier endpoint
              (min (c + int (length (a # cs))) (max c ?M)) (toStored t0) l']\<rparr>"
    proof -
      from fin obtain l' where d: "db' = ?db1\<lparr>rateLimits := pre @ [windowRow rid identifier endpoint
              (min (c + 1 + int (length cs)) (max (c + 1) ?M)) (toStored t0) l']\<rparr>" by blast
      have "db' = db\<lparr>rateLimits := pre @ [windowRow rid identifier endpoint
              (min (c + int (length (a # cs))) (max c ?M)) (toStored t0) l']\<rparr>"
        unfolding d m by simp
      then show ?thesis by blast
    qed
    ultimately show ?thesis by blast
  next
    case False
    obtain rs1 where run1: "checkMany cs identifier endpoint db = (rs1, db')"
      and rs: "rs = \<lparr>allowed = False, remainingRequests = Some 0,
                     resetTime = Some (toStored t0 + ?W)\<rparr> # rs1"
      using Cons.prems(3) False step unfolding a
      by (auto simp: Let_def split: prod.splits)
    from Cons.IH[OF Cons.prems(1) cs' run1]
    have len: "length rs1 = length cs"
      and ks: "\<forall>k < length rs1. allowed (rs1 ! k) = (c + int k < ?M)
           \<and> (\<not> allowed (rs1 ! k) \<longrightarrow> remainingRequests (rs1 ! k) = Some 0)
           \<and> resetTime (rs1 ! k) = Some (toStored t0 + ?W)"
      and fin: "\<exists>l'. db' = db\<lparr>rateLimits := pre @ [windowRow rid identifier endpoint
              (min (c + int (length cs)) (max c ?M)) (toStored t0) l']\<rparr>"
      by auto
    have m: "min (c + int (length cs)) (max c ?M)
           = min (c + int (length (a # cs))) (max c ?M)"
      using False by auto
    have "\<forall>k < length rs. allowed (rs ! k) = (c + int k < ?M)
           \<and> (\<not> allowed (rs ! k) \<longrightarrow> remainingRequests (rs ! k) = Some 0)
           \<and> resetTime (rs ! k) = Some (toStored t0 + ?W)"
    proof (intro allI impI)
      fix k assume "k < length rs"
      show "allowed (rs ! k) = (c + int k < ?M)
           \<and> (\<not> allowed (rs ! k) \<longrightarrow> remainingRequests (rs ! k) = Some 0)
           \<and> resetTime (rs ! k) = Some (toStored t0 + ?W)"
      proof (cases k)
        case 0
        then show ?thesis using False by (simp add: rs)
      next
        case (Suc j)
        with \<open>k < length rs\<close> have "j < length rs1" by (simp add: rs)
        with ks have "allowed (rs1 ! j) = (c + int j < ?M)
           \<and> (\<not> allowed (rs1 ! j) \<longrightarrow> remainingRequests (rs1 ! j) = Some 0)
           \<and> resetTime (rs1 ! j) = Some (toStored t0 + ?W)" by blast
        then show ?thesis using False by (simp add: rs Suc)
      qed
    qed
    moreover have "length rs = length (a # cs)" by (simp add: rs len)
    moreover have "\<exists>l'. db' = db\<lparr>rateLimits := pre @ [windowRow rid identifier endpoint
              (min (c + int (length (a # cs))) (max c ?M)) (toStored t0) l']\<rparr>"
    proof -
      from fin obtain l' where d: "db' = db\<lparr>rateLimits := pre @ [windowRow rid identifier endpoint
              (min (c + int (length cs)) (max c ?M)) (toStored t0) l']\<rparr>" by blast
      have "db' = db\<lparr>rateLimits := pre @ [windowRow rid identifier endpoint
              (min (c + int (length (a # cs))) (max c ?M)) (toStored t0) l']\<rparr>"
        unfolding d m by simp
      then show ?thesis by blast
    qed
    ultimately show ?thesis by blast
  qed
qed

lemma verify_otp_config:
  "configFor ''auth:verify-otp'' = Some \<lparr>windowMs = 60000, maxRequests = 5\<rparr>"
  by (simp add: configFor_def RATE_LIMIT_CONFIGS_def)

lemma sixCalls_run:
  "checkMany ((1500, ''rl_1'') # fiveMore) ''10.0.0.1'' ''auth:verify-otp'' emptyDb = (sixResults, dbSix)"
  by (simp add: example_defs checkRateLimit_def verify_otp_config gt_ts_def toStored_def Let_def)

text \<open>
  C5. Let the endpoint have a config (an own key of the table, or the general fallback)
  and let no row of (identifier, endpoint) lie in the active window at \<open>t0\<close>. Let a
  caller check at \<open>t0\<close> and then at the times of \<open>cs\<close>, all before the end of the window,
  which is the stored (whole-second) start \<open>toStored t0\<close> plus \<open>windowMs\<close>. Then the first
  check creates a row of count 1 whose window starts at \<open>toStored t0\<close>; the check number
  k (counting from 0) is allowed exactly when \<open>k < maxRequests\<close>; every denied check
  reports \<open>remainingRequests = 0\<close>; every check after the first reports the reset time
  \<open>toStored t0 + windowMs\<close> (the first one \<open>t0 + windowMs\<close>); the stored count ends at
  \<open>min (number of checks) maxRequests\<close>, never above the ceiling, and nothing else in the
  store changes; and a check at or after the end of the window is allowed and adds a
  fresh row of count 1. With \<open>maxRequests = 5\<close> the sixth check in the window is the
  first one denied.
\<close>

theorem checkRateLimit_fixed_window:
  assumes cfg: "configFor endpoint = Some cfg"
      and none: "find (inWindow cfg t0 identifier endpoint) (rateLimits db) = None"
      and fresh: "newId0 \<notin> set (map rl_id (rateLimits db))"
      and cs: "\<forall>(t, nid) \<in> set cs. t0 \<le> t \<and> t < toStored t0 + windowMs cfg"
      and run: "checkMany ((t0, newId0) # cs) identifier endpoint db = (rs, db')"
  shows "length rs = Suc (length cs)
       \<and> (\<forall>k < length rs.
             allowed (rs ! k) = (int k < maxRequests cfg)
           \<and> (\<not> allowed (rs ! k) \<longrightarrow> remainingRequests (rs ! k) = Some 0)
           \<and> resetTime (rs ! k) = Some ((if k = 0 then t0 else toStored t0) + windowMs cfg))
       \<and> (\<exists>l. db' = db\<lparr>rateLimits := rateLimits db @ [windowRow newId0 identifier endpoint
              (min (1 + int (length cs)) (maxRequests cfg)) (toStored t0) l]\<rparr>)
       \<and> (\<forall>t' nid'. toStored t0 + windowMs cfg \<le> t'
              \<and> nid' \<notin> set (map rl_id (rateLimits db')) \<longrightarrow>
            checkRateLimit False t' nid' identifier endpoint db' =
              (\<lparr>allowed = True, remainingRequests = Some (maxRequests cfg - 1),
                resetTime = Some (t' + windowMs cfg)\<rparr>,
               db'\<lparr>rateLimits := rateLimits db' @
                  [windowRow nid' identifier endpoint 1 (toStored t') (toStored t')]\<rparr>))"
proof -
  let ?M = "maxRequests cfg"
  let ?W = "windowMs cfg"
  let ?db1 = "db\<lparr>rateLimits := rateLimits db @
                [windowRow newId0 identifier endpoint 1 (toStored t0) (toStored t0)]\<rparr>"
  note b = configFor_bounds[OF cfg]
  have M: "3 \<le> ?M" using b by simp
  have first: "checkRateLimit False t0 newId0 identifier endpoint db =
          (\<lparr>allowed = True, remainingRequests = Some (?M - 1), resetTime = Some (t0 + ?W)\<rparr>, ?db1)"
    by (rule check_create[OF cfg none fresh])
  obtain rs1 where run1: "checkMany cs identifier endpoint ?db1 = (rs1, db')"
      and rs: "rs = \<lparr>allowed = True, remainingRequests = Some (?M - 1),
                     resetTime = Some (t0 + ?W)\<rparr> # rs1"
    using run first by (auto simp: Let_def split: prod.splits)
  have db1: "rateLimits ?db1 = rateLimits db @
               [windowRow newId0 identifier endpoint 1 (toStored t0) (toStored t0)]"
    by simp
  from checkMany_in_window[OF cfg none fresh db1 cs run1]
  have len: "length rs1 = length cs"
    and ks: "\<forall>k < length rs1. allowed (rs1 ! k) = (1 + int k < ?M)
           \<and> (\<not> allowed (rs1 ! k) \<longrightarrow> remainingRequests (rs1 ! k) = Some 0)
           \<and> resetTime (rs1 ! k) = Some (toStored t0 + ?W)"
    and fin: "\<exists>l'. db' = ?db1\<lparr>rateLimits := rateLimits db @ [windowRow newId0 identifier endpoint
              (min (1 + int (length cs)) (max 1 ?M)) (toStored t0) l']\<rparr>"
    by auto
  have mx: "max 1 ?M = ?M" using M by simp
  from fin obtain l where d: "db' = db\<lparr>rateLimits := rateLimits db @
      [windowRow newId0 identifier endpoint (min (1 + int (length cs)) ?M) (toStored t0) l]\<rparr>"
    unfolding mx by auto
  have c1: "length rs = Suc (length cs)" by (simp add: rs len)
  have c2: "\<forall>k < length rs.
             allowed (rs ! k) = (int k < ?M)
           \<and> (\<not> allowed (rs ! k) \<longrightarrow> remainingRequests (rs ! k) = Some 0)
           \<and> resetTime (rs ! k) = Some ((if k = 0 then t0 else toStored t0) + ?W)"
  proof (intro allI impI)
    fix k assume k: "k < length rs"
    show "allowed (rs ! k) = (int k < ?M)
           \<and> (\<not> allowed (rs ! k) \<longrightarrow> remainingRequests (rs ! k) = Some 0)
           \<and> resetTime (rs ! k) = Some ((if k = 0 then t0 else toStored t0) + ?W)"
    proof (cases k)
      case 0
      then show ?thesis using M by (simp add: rs)
    next
      case (Suc j)
      with k have "j < length rs1" by (simp add: rs)
      with ks have "allowed (rs1 ! j) = (1 + int j < ?M)
           \<and> (\<not> allowed (rs1 ! j) \<longrightarrow> remainingRequests (rs1 ! j) = Some 0)
           \<and> resetTime (rs1 ! j) = Some (toStored t0 + ?W)" by blast
      then show ?thesis by (simp add: rs Suc)
    qed
  qed
  have c4: "\<forall>t' nid'. toStored t0 + ?W \<le> t' \<and> nid' \<notin> set (map rl_id (rateLimits db')) \<longrightarrow>
            checkRateLimit False t' nid' identifier endpoint db' =
              (\<lparr>allowed = True, remainingRequests = Some (?M - 1), resetTime = Some (t' + ?W)\<rparr>,
               db'\<lparr>rateLimits := rateLimits db' @
                  [windowRow nid' identifier endpoint 1 (toStored t') (toStored t')]\<rparr>)"
  proof (intro allI impI)
    fix t' nid'
    assume a: "toStored t0 + ?W \<le> t' \<and> nid' \<notin> set (map rl_id (rateLimits db'))"
    have w: "60000 \<le> ?W" using b by simp
    have "find (inWindow cfg t' identifier endpoint) (rateLimits db') = None"
      unfolding d using find_window_elapsed[OF none _ w, of t' newId0] a by simp
    from check_create[OF cfg this] a
    show "checkRateLimit False t' nid' identifier endpoint db' =
              (\<lparr>allowed = True, remainingRequests = Some (?M - 1), resetTime = Some (t' + ?W)\<rparr>,
               db'\<lparr>rateLimits := rateLimits db' @
                  [windowRow nid' identifier endpoint 1 (toStored t') (toStored t')]\<rparr>)"
      by blast
  qed
  from c1 c2 d c4 show ?thesis by blast
qed

theorem checkRateLimit_fixed_window_witness:
  "configFor ''auth:verify-otp'' = Some \<lparr>windowMs = 60000, maxRequests = 5\<rparr>
   \<and> find (inWindow \<lparr>windowMs = 60000, maxRequests = 5\<rparr> 1500 ''10.0.0.1'' ''auth:verify-otp'')
        (rateLimits emptyDb) = None
   \<and> ''rl_1'' \<notin> set (map rl_id (rateLimits emptyDb))
   \<and> list_all (\<lambda>(t, nid). 1500 \<le> t \<and> t < toStored 1500 + 60000) fiveMore
   \<and> checkMany ((1500, ''rl_1'') # fiveMore) ''10.0.0.1'' ''auth:verify-otp'' emptyDb
        = (sixResults, dbSix)
   \<and> allowed (sixResults ! 4) \<and> \<not> allowed (sixResults ! 5)
   \<and> remainingRequests (sixResults ! 5) = Some 0
   \<and> resetTime (sixResults ! 5) = Some 61000
   \<and> checkRateLimit False 61200 ''rl_7'' ''10.0.0.1'' ''auth:verify-otp'' dbSix =
        (\<lparr>allowed = True, remainingRequests = Some 4, resetTime = Some 121200\<rparr>,
         dbSix\<lparr>rateLimits := rateLimits dbSix @
            [windowRow ''rl_7'' ''10.0.0.1'' ''auth:verify-otp'' 1 61000 61000]\<rparr>)"
proof -
  let ?cfg = "\<lparr>windowMs = 60000, maxRequests = 5\<rparr>"
  note h0 = verify_otp_config
  have h1: "find (inWindow ?cfg 1500 ''10.0.0.1'' ''auth:verify-otp'') (rateLimits emptyDb) = None"
    and h2: "''rl_1'' \<notin> set (map rl_id (rateLimits emptyDb))"
    by (simp_all add: emptyDb_def)
  have h3': "list_all (\<lambda>(t, nid). 1500 \<le> t \<and> t < toStored 1500 + 60000) fiveMore"
    by (simp add: fiveMore_def toStored_def)
  then have h3: "\<forall>(t, nid) \<in> set fiveMore. 1500 \<le> t \<and> t < toStored 1500 + windowMs ?cfg"
    by (simp add: list_all_iff)
  note h4 = sixCalls_run
  have len: "length fiveMore = 5" by (simp add: fiveMore_def)
  have st: "toStored 1500 = 1000" "toStored 61200 = 61000" by (simp_all add: toStored_def)
  have fresh7: "''rl_7'' \<notin> set (map rl_id (rateLimits dbSix))" by (simp add: dbSix_def)
  note main = checkRateLimit_fixed_window[OF h0 h1 h2 h3 h4, unfolded len st]
  from main have r4: "allowed (sixResults ! 4)" and r5: "\<not> allowed (sixResults ! 5)"
    by simp_all
  from main r5 have z: "remainingRequests (sixResults ! 5) = Some 0" by simp
  from main have rt: "resetTime (sixResults ! 5) = Some 61000" by simp
  from main fresh7 st have after:
    "checkRateLimit False 61200 ''rl_7'' ''10.0.0.1'' ''auth:verify-otp'' dbSix =
        (\<lparr>allowed = True, remainingRequests = Some 4, resetTime = Some 121200\<rparr>,
         dbSix\<lparr>rateLimits := rateLimits dbSix @
            [windowRow ''rl_7'' ''10.0.0.1'' ''auth:verify-otp'' 1 61000 61000]\<rparr>)"
    by simp
  from h0 h1 h2 h3' h4 r4 r5 z rt after show ?thesis by blast
qed

section \<open>enforceDeviceLimit\<close>

lemma activeSessionsOf_alt:
  "activeSessionsOf userId superuserId ss =
     sort_key s_createdAt (filter (\<lambda>s. ofAccount userId superuserId s \<and> s_isActive s) ss)"
  by (simp add: activeSessionsOf_def ofAccount_def Let_def)

lemma activeSessionsOf_head:
  assumes "activeSessionsOf userId superuserId ss = oldest # rest"
  shows "oldest \<in> set ss \<and> ofAccount userId superuserId oldest \<and> s_isActive oldest
       \<and> (\<forall>s \<in> set ss. ofAccount userId superuserId s \<and> s_isActive s
             \<longrightarrow> s_createdAt oldest \<le> s_createdAt s)"
proof -
  let ?xs = "filter (\<lambda>s. ofAccount userId superuserId s \<and> s_isActive s) ss"
  have eq: "sort_key s_createdAt ?xs = oldest # rest"
    using assms by (simp add: activeSessionsOf_alt)
  have "set (sort_key s_createdAt ?xs) = set ?xs" by simp
  with eq have mem: "insert oldest (set rest) = set ?xs" by simp
  have "sorted (map s_createdAt (sort_key s_createdAt ?xs))" by (rule sorted_sort_key)
  with eq have le: "\<forall>s \<in> set rest. s_createdAt oldest \<le> s_createdAt s" by simp
  from mem have "oldest \<in> set ?xs" by blast
  moreover have "\<forall>s \<in> set ?xs. s_createdAt oldest \<le> s_createdAt s"
    using mem le by auto
  ultimately show ?thesis by auto
qed

lemma revokeSessions_by_id:
  assumes "distinct (map s_id ss)" and "oldest \<in> set ss"
  shows "revokeSessionsWhere (\<lambda>s. s_id s = s_id oldest) ss =
           map (\<lambda>s. if s = oldest then s\<lparr>s_revoked := True, s_isActive := False\<rparr> else s) ss"
  unfolding revokeSessionsWhere_def
proof (rule map_cong[OF refl])
  fix s assume "s \<in> set ss"
  with assms have "s_id s = s_id oldest \<longleftrightarrow> s = oldest"
    by (auto simp: distinct_map inj_on_def)
  then show "(if s_id s = s_id oldest then s\<lparr>s_revoked := True, s_isActive := False\<rparr> else s)
           = (if s = oldest then s\<lparr>s_revoked := True, s_isActive := False\<rparr> else s)"
    by simp
qed

text \<open>
  C8. For a given account (a non-empty user or superuser id) and a sessions table whose
  ids are distinct (the primary key): the list the function queries has one entry for
  each active session row of the account; when the number of the account's active sessions
  is below \<open>maxDevices\<close>, the store is returned unchanged; when the list of the account's
  active sessions ordered by \<open>createdAt\<close> is \<open>oldest # rest\<close> and its length is at or
  above \<open>maxDevices\<close>, then \<open>oldest\<close> is an active session of the account with the least
  \<open>createdAt\<close> among them (and the least \<open>sessionStarted\<close>, when the two columns agree
  on every row, as they do on rows written by \<^verbatim>\<open>generateTokenPair\<close>), exactly that
  session row is set to revoked and inactive, and every refresh-token row of its token
  family is set to revoked, with the whole second of the call as \<open>revokedAt\<close>; nothing
  else changes.
\<close>

theorem enforceDeviceLimit_evicts_oldest:
  assumes acct: "truthy (if truthy userId then userId else superuserId)"
      and pk: "distinct (map s_id (sessions db))"
  shows "length (activeSessionsOf userId superuserId (sessions db)) =
           length (filter (\<lambda>s. ofAccount userId superuserId s \<and> s_isActive s) (sessions db))
       \<and> (int (length (activeSessionsOf userId superuserId (sessions db))) < maxDevices \<longrightarrow>
            enforceDeviceLimit now userId superuserId maxDevices db = Some db)
       \<and> (\<forall>oldest rest.
            activeSessionsOf userId superuserId (sessions db) = oldest # rest
            \<and> int (length (oldest # rest)) \<ge> maxDevices \<longrightarrow>
              oldest \<in> set (sessions db) \<and> ofAccount userId superuserId oldest \<and> s_isActive oldest
            \<and> (\<forall>s \<in> set (sessions db). ofAccount userId superuserId s \<and> s_isActive s
                  \<longrightarrow> s_createdAt oldest \<le> s_createdAt s)
            \<and> ((\<forall>s \<in> set (sessions db). s_sessionStarted s = s_createdAt s) \<longrightarrow>
                (\<forall>s \<in> set (sessions db). ofAccount userId superuserId s \<and> s_isActive s
                  \<longrightarrow> s_sessionStarted oldest \<le> s_sessionStarted s))
            \<and> enforceDeviceLimit now userId superuserId maxDevices db =
                Some (db\<lparr>sessions :=
                           map (\<lambda>s. if s = oldest
                                     then s\<lparr>s_revoked := True, s_isActive := False\<rparr> else s)
                             (sessions db),
                         refreshTokens :=
                           map (\<lambda>r. if rt_tokenFamily r = s_tokenFamily oldest
                                     then r\<lparr>rt_revoked := True, rt_revokedAt := Some (toStored now)\<rparr> else r)
                             (refreshTokens db)\<rparr>))"
proof (intro conjI allI impI)
  show "length (activeSessionsOf userId superuserId (sessions db)) =
           length (filter (\<lambda>s. ofAccount userId superuserId s \<and> s_isActive s) (sessions db))"
    by (simp add: activeSessionsOf_alt)
next
  assume "int (length (activeSessionsOf userId superuserId (sessions db))) < maxDevices"
  then show "enforceDeviceLimit now userId superuserId maxDevices db = Some db"
    using acct by (simp add: enforceDeviceLimit_def Let_def)
next
  fix oldest rest
  assume a: "activeSessionsOf userId superuserId (sessions db) = oldest # rest
            \<and> int (length (oldest # rest)) \<ge> maxDevices"
  note hd = activeSessionsOf_head[OF a[THEN conjunct1]]
  show "oldest \<in> set (sessions db)" "ofAccount userId superuserId oldest" "s_isActive oldest"
       "\<forall>s \<in> set (sessions db). ofAccount userId superuserId s \<and> s_isActive s
                  \<longrightarrow> s_createdAt oldest \<le> s_createdAt s"
    using hd by blast+
  have "enforceDeviceLimit now userId superuserId maxDevices db =
          Some (db\<lparr>sessions := revokeSessionsWhere (\<lambda>s. s_id s = s_id oldest) (sessions db),
                   refreshTokens :=
                     revokeTokensWhere (\<lambda>r. rt_tokenFamily r = s_tokenFamily oldest) now
                       (refreshTokens db)\<rparr>)"
    using acct a by (simp add: enforceDeviceLimit_def Let_def)
  then show "enforceDeviceLimit now userId superuserId maxDevices db =
                Some (db\<lparr>sessions :=
                           map (\<lambda>s. if s = oldest
                                     then s\<lparr>s_revoked := True, s_isActive := False\<rparr> else s)
                             (sessions db),
                         refreshTokens :=
                           map (\<lambda>r. if rt_tokenFamily r = s_tokenFamily oldest
                                     then r\<lparr>rt_revoked := True, rt_revokedAt := Some (toStored now)\<rparr> else r)
                             (refreshTokens db)\<rparr>)"
    using revokeSessions_by_id[OF pk, of oldest] hd
    by (simp add: revokeTokensWhere_def)
next
  fix oldest rest
  assume a: "activeSessionsOf userId superuserId (sessions db) = oldest # rest
            \<and> int (length (oldest # rest)) \<ge> maxDevices"
    and eq: "\<forall>s \<in> set (sessions db). s_sessionStarted s = s_createdAt s"
  note hd = activeSessionsOf_head[OF a[THEN conjunct1]]
  show "\<forall>s \<in> set (sessions db). ofAccount userId superuserId s \<and> s_isActive s
                  \<longrightarrow> s_sessionStarted oldest \<le> s_sessionStarted s"
  proof (intro ballI impI)
    fix s assume s: "s \<in> set (sessions db)" "ofAccount userId superuserId s \<and> s_isActive s"
    from hd s have "s_createdAt oldest \<le> s_createdAt s" by blast
    with eq hd s show "s_sessionStarted oldest \<le> s_sessionStarted s" by simp
  qed
qed

theorem enforceDeviceLimit_evicts_oldest_witness:
  "truthy (if truthy (Some ''u1'') then Some ''u1'' else None)
   \<and> distinct (map s_id (sessions dbTwoDevices))
   \<and> activeSessionsOf (Some ''u1'') None (sessions dbTwoDevices) = session1 # [session2]
   \<and> int (length (session1 # [session2])) \<ge> 2
   \<and> int (length (activeSessionsOf (Some ''u1'') None (sessions dbTwoDevices))) < 5
   \<and> list_all (\<lambda>s. s_sessionStarted s = s_createdAt s) (sessions dbTwoDevices)
   \<and> list_all (\<lambda>s. s_sessionStarted session1 \<le> s_sessionStarted s) (sessions dbTwoDevices)
   \<and> enforceDeviceLimit 9000 (Some ''u1'') None 5 dbTwoDevices = Some dbTwoDevices
   \<and> length (activeSessionsOf (Some ''u1'') None (sessions dbTwoDevices)) =
       length (filter (\<lambda>s. ofAccount (Some ''u1'') None s \<and> s_isActive s) (sessions dbTwoDevices))
   \<and> enforceDeviceLimit 9500 (Some ''u1'') None 2 dbTwoDevices =
        Some (dbTwoDevices\<lparr>sessions :=
                 map (\<lambda>s. if s = session1
                           then s\<lparr>s_revoked := True, s_isActive := False\<rparr> else s)
                   (sessions dbTwoDevices),
               refreshTokens :=
                 map (\<lambda>r. if rt_tokenFamily r = s_tokenFamily session1
                           then r\<lparr>rt_revoked := True, rt_revokedAt := Some 9000\<rparr> else r)
                   (refreshTokens dbTwoDevices)\<rparr>)"
proof -
  have h1: "truthy (if truthy (Some ''u1'') then Some ''u1'' else None)"
    by (simp add: truthy_def)
  have h2: "distinct (map s_id (sessions dbTwoDevices))"
    by (simp add: example_defs)
  have h3: "activeSessionsOf (Some ''u1'') None (sessions dbTwoDevices) = session1 # [session2]"
    by (simp add: activeSessionsOf_def truthy_def Let_def example_defs)
  have h4: "int (length (session1 # [session2])) \<ge> 2" by simp
  have h5: "int (length (activeSessionsOf (Some ''u1'') None (sessions dbTwoDevices))) < 5"
    by (simp add: h3)
  from enforceDeviceLimit_evicts_oldest[OF h1 h2, of 5 9000] h5
  have keep: "enforceDeviceLimit 9000 (Some ''u1'') None 5 dbTwoDevices = Some dbTwoDevices"
    by blast
  have st: "toStored 9500 = 9000" by (simp add: toStored_def)
  from enforceDeviceLimit_evicts_oldest[OF h1 h2, of 5 9000]
  have len: "length (activeSessionsOf (Some ''u1'') None (sessions dbTwoDevices)) =
       length (filter (\<lambda>s. ofAccount (Some ''u1'') None s \<and> s_isActive s) (sessions dbTwoDevices))"
    by (rule conjunct1)
  from enforceDeviceLimit_evicts_oldest[OF h1 h2, of 2 9500, unfolded st] h3 h4
  have evict: "enforceDeviceLimit 9500 (Some ''u1'') None 2 dbTwoDevices =
        Some (dbTwoDevices\<lparr>sessions :=
                 map (\<lambda>s. if s = session1
                           then s\<lparr>s_revoked := True, s_isActive := False\<rparr> else s)
                   (sessions dbTwoDevices),
               refreshTokens :=
                 map (\<lambda>r. if rt_tokenFamily r = s_tokenFamily session1
                           then r\<lparr>rt_revoked := True, rt_revokedAt := Some 9000\<rparr> else r)
                   (refreshTokens dbTwoDevices)\<rparr>)"
    by blast
  have h6: "list_all (\<lambda>s. s_sessionStarted s = s_createdAt s) (sessions dbTwoDevices)"
    by (simp add: example_defs)
  then have h6': "\<forall>s \<in> set (sessions dbTwoDevices). s_sessionStarted s = s_createdAt s"
    by (simp add: list_all_iff)
  have all: "\<forall>s \<in> set (sessions dbTwoDevices). ofAccount (Some ''u1'') None s \<and> s_isActive s"
    by (simp add: ofAccount_def truthy_def example_defs)
  from enforceDeviceLimit_evicts_oldest[OF h1 h2, of 2 9000] h3 h4 h6'
  have "\<forall>s \<in> set (sessions dbTwoDevices). ofAccount (Some ''u1'') None s \<and> s_isActive s
          \<longrightarrow> s_sessionStarted session1 \<le> s_sessionStarted s"
    by blast
  with all have started:
    "list_all (\<lambda>s. s_sessionStarted session1 \<le> s_sessionStarted s) (sessions dbTwoDevices)"
    by (simp add: list_all_iff)
  from h1 h2 h3 h4 h5 h6 started keep len evict show ?thesis by blast
qed

text \<open>
  With no active session and a limit of zero or less the function reads \<^verbatim>\<open>oldest.id\<close>
  of an undefined value and throws.
\<close>

lemma enforceDeviceLimit_no_session_throws:
  assumes "truthy (if truthy userId then userId else superuserId)"
      and "activeSessionsOf userId superuserId (sessions db) = []" and "maxDevices \<le> 0"
  shows "enforceDeviceLimit now userId superuserId maxDevices db = None"
  using assms by (simp add: enforceDeviceLimit_def Let_def)

lemma generateTokenPair_started_eq_created:
  assumes "\<forall>s \<in> set (sessions db). s_sessionStarted s = s_createdAt s"
  shows "\<forall>s \<in> set (sessions (snd (generateTokenPair cr familyUnique now gen userId superuserId dev fam db))).
           s_sessionStarted s = s_createdAt s"
  using assms
  by (auto simp: generateTokenPair_def upsertSession_def Let_def split: option.splits if_splits)

section \<open>The invariant of the refresh-token table: preservation\<close>

lemma keepsSuccessors_refl: "keepsSuccessors ts ts"
  by (auto simp: keepsSuccessors_def)

lemma keepsSuccessors_trans:
  "keepsSuccessors ts ts' \<Longrightarrow> keepsSuccessors ts' ts'' \<Longrightarrow> keepsSuccessors ts ts''"
  unfolding keepsSuccessors_def
proof (intro ballI allI impI)
  fix r s
  assume a: "\<forall>r\<in>set ts. \<forall>s. rt_newTokenId r = Some s \<longrightarrow>
               (\<exists>r'\<in>set ts'. rt_id r' = rt_id r \<and> rt_newTokenId r' = Some s)"
    and b: "\<forall>r\<in>set ts'. \<forall>s. rt_newTokenId r = Some s \<longrightarrow>
               (\<exists>r'\<in>set ts''. rt_id r' = rt_id r \<and> rt_newTokenId r' = Some s)"
    and r: "r \<in> set ts" "rt_newTokenId r = Some s"
  from a r obtain r' where r': "r' \<in> set ts'" "rt_id r' = rt_id r" "rt_newTokenId r' = Some s"
    by blast
  from b r' obtain r'' where "r'' \<in> set ts''" "rt_id r'' = rt_id r'" "rt_newTokenId r'' = Some s"
    by blast
  with r' show "\<exists>r'\<in>set ts''. rt_id r' = rt_id r \<and> rt_newTokenId r' = Some s" by auto
qed

lemma successorLinksI:
  "r \<in> set ts \<Longrightarrow> rt_newTokenId r = Some s \<Longrightarrow> (rt_id r, s) \<in> successorLinks ts"
  unfolding successorLinks_def by blast

lemma successorLinksE:
  assumes "p \<in> successorLinks ts"
  obtains r s where "p = (rt_id r, s)" "r \<in> set ts" "rt_newTokenId r = Some s"
  using assms unfolding successorLinks_def by blast

lemma successorLinks_map:
  assumes "\<And>r. rt_id (f r) = rt_id r" and "\<And>r. rt_newTokenId (f r) = rt_newTokenId r"
  shows "successorLinks (map f ts) = successorLinks ts"
proof (rule set_eqI)
  fix p
  show "p \<in> successorLinks (map f ts) \<longleftrightarrow> p \<in> successorLinks ts"
  proof
    assume "p \<in> successorLinks (map f ts)"
    then obtain r' s where p: "p = (rt_id r', s)" and r': "r' \<in> set (map f ts)"
      and s: "rt_newTokenId r' = Some s"
      by (rule successorLinksE)
    from r' obtain r where r: "r \<in> set ts" "r' = f r" by auto
    with p s assms have "p = (rt_id r, s)" "rt_newTokenId r = Some s" by simp_all
    with r show "p \<in> successorLinks ts" by (simp add: successorLinksI)
  next
    assume "p \<in> successorLinks ts"
    then obtain r s where p: "p = (rt_id r, s)" and r: "r \<in> set ts"
      and s: "rt_newTokenId r = Some s"
      by (rule successorLinksE)
    from r have "f r \<in> set (map f ts)" by simp
    moreover from p s assms have "p = (rt_id (f r), s)" "rt_newTokenId (f r) = Some s" by simp_all
    ultimately show "p \<in> successorLinks (map f ts)" by (simp only: successorLinksI)
  qed
qed

lemma keepsSuccessors_map:
  assumes "\<And>r. rt_id (f r) = rt_id r" and "\<And>r. rt_newTokenId (f r) = rt_newTokenId r"
  shows "keepsSuccessors ts (map f ts)"
  unfolding keepsSuccessors_def
proof (intro ballI allI impI)
  fix r s assume "r \<in> set ts" "rt_newTokenId r = Some s"
  with assms have "f r \<in> set (map f ts)" "rt_id (f r) = rt_id r" "rt_newTokenId (f r) = Some s"
    by simp_all
  then show "\<exists>r' \<in> set (map f ts). rt_id r' = rt_id r \<and> rt_newTokenId r' = Some s" by blast
qed

lemma successorLinks_revoke:
  "successorLinks (revokeTokensWhere P now ts) = successorLinks ts"
  unfolding revokeTokensWhere_def by (rule successorLinks_map) simp_all

lemma storeInv_revoke:
  assumes "storeInv ts"
  shows "storeInv (revokeTokensWhere P now ts)"
proof -
  have ids: "map rt_id (revokeTokensWhere P now ts) = map rt_id ts"
    by (simp add: revokeTokensWhere_def)
  have act: "\<And>r. r \<in> set (revokeTokensWhere P now ts) \<Longrightarrow> activeToken r \<Longrightarrow> r \<in> set ts"
    by (auto simp: revokeTokensWhere_def activeToken_def split: if_splits)
  have "oneActivePerFamily (revokeTokensWhere P now ts)"
    using assms act unfolding storeInv_def oneActivePerFamily_def by blast
  with assms ids show ?thesis
    by (simp add: storeInv_def successorLinks_revoke)
qed

lemma keepsSuccessors_revoke: "keepsSuccessors ts (revokeTokensWhere P now ts)"
  unfolding revokeTokensWhere_def by (rule keepsSuccessors_map) simp_all

lemma successorLinks_ids: "(a, b) \<in> successorLinks ts \<Longrightarrow> a \<in> set (map rt_id ts)"
  by (erule successorLinksE) simp

lemma successorLinks_append_new:
  assumes "rt_newTokenId new = None"
  shows "successorLinks (ts @ [new]) = successorLinks ts"
  using assms by (auto simp: successorLinks_def)

text \<open>A fresh row of a family that has no active row yet keeps the invariant.\<close>

lemma storeInv_append:
  assumes inv: "storeInv ts"
      and fresh: "rt_id new \<notin> set (map rt_id ts)"
      and nosucc: "rt_newTokenId new = None"
      and alone: "\<forall>r \<in> set ts. activeToken r \<longrightarrow> rt_tokenFamily r \<noteq> rt_tokenFamily new"
  shows "storeInv (ts @ [new])"
proof -
  from inv have one: "oneActivePerFamily ts" by (simp add: storeInv_def)
  have "oneActivePerFamily (ts @ [new])"
    unfolding oneActivePerFamily_def
  proof (intro ballI impI)
    fix r1 r2
    assume r1: "r1 \<in> set (ts @ [new])" and r2: "r2 \<in> set (ts @ [new])"
      and h: "activeToken r1 \<and> activeToken r2 \<and> rt_tokenFamily r1 = rt_tokenFamily r2"
    from r1 have c1: "r1 = new \<or> r1 \<in> set ts" by auto
    from r2 have c2: "r2 = new \<or> r2 \<in> set ts" by auto
    from c1 c2 show "r1 = r2"
    proof (elim disjE)
      assume "r1 = new" "r2 = new" then show ?thesis by simp
    next
      assume "r1 = new" "r2 \<in> set ts"
      with alone h show ?thesis by auto
    next
      assume "r1 \<in> set ts" "r2 = new"
      with alone h show ?thesis by auto
    next
      assume "r1 \<in> set ts" "r2 \<in> set ts"
      with one h show ?thesis unfolding oneActivePerFamily_def by blast
    qed
  qed
  with inv fresh nosucc show ?thesis
    by (simp add: storeInv_def successorLinks_append_new)
qed

lemma keepsSuccessors_append: "keepsSuccessors ts (ts @ [new])"
  by (auto simp: keepsSuccessors_def)

text \<open>Marking a never-rotated active row as rotated into a fresh row.\<close>

lemma storeInv_rotate:
  assumes inv: "storeInv ts"
      and rec: "rec \<in> set ts" "activeToken rec" "rt_newTokenId rec = None"
      and fresh: "rt_id new \<notin> set (map rt_id ts)"
      and new: "rt_newTokenId new = None" "rt_tokenFamily new = rt_tokenFamily rec"
  shows "storeInv (map (markRotated (rt_id rec) now (rt_id new)) (ts @ [new]))"
    and "keepsSuccessors ts (map (markRotated (rt_id rec) now (rt_id new)) (ts @ [new]))"
proof -
  let ?f = "markRotated (rt_id rec) now (rt_id new)"
  from inv have dist: "distinct (map rt_id ts)" and one: "oneActivePerFamily ts"
    and acyc: "acyclic (successorLinks ts)"
    by (simp_all add: storeInv_def)
  have ne: "rt_id new \<noteq> rt_id rec" using rec(1) fresh by auto
  have same: "\<And>r. r \<in> set ts \<Longrightarrow> rt_id r = rt_id rec \<Longrightarrow> r = rec"
    using dist rec(1) by (auto simp: distinct_map inj_on_def)
  have fid: "\<And>r. rt_id (?f r) = rt_id r" by (simp add: markRotated_def)
  have fnew: "?f new = new" using ne by (simp add: markRotated_def)
  have fother: "\<And>r. r \<in> set ts \<Longrightarrow> r \<noteq> rec \<Longrightarrow> ?f r = r"
    using same by (auto simp: markRotated_def)
  have frec: "\<not> activeToken (?f rec)" by (simp add: markRotated_def activeToken_def)
  have ids: "map rt_id (map ?f (ts @ [new])) = map rt_id ts @ [rt_id new]"
    by (simp add: fid comp_def)
  have d: "distinct (map rt_id (map ?f (ts @ [new])))"
    unfolding ids using dist fresh by simp
  have act: "\<And>r'. r' \<in> set (map ?f (ts @ [new])) \<Longrightarrow> activeToken r' \<Longrightarrow>
                r' = new \<or> (r' \<in> set ts \<and> r' \<noteq> rec)"
  proof -
    fix r' assume "r' \<in> set (map ?f (ts @ [new]))" and a: "activeToken r'"
    then obtain r where r: "r \<in> set (ts @ [new])" "r' = ?f r" by auto
    show "r' = new \<or> (r' \<in> set ts \<and> r' \<noteq> rec)"
    proof (cases "r = new")
      case True with r fnew show ?thesis by simp
    next
      case False
      with r have rin: "r \<in> set ts" by simp
      show ?thesis
      proof (cases "r = rec")
        case True with r a frec show ?thesis by simp
      next
        case False with rin r fother show ?thesis by simp
      qed
    qed
  qed
  have o: "oneActivePerFamily (map ?f (ts @ [new]))"
    unfolding oneActivePerFamily_def
  proof (intro ballI impI)
    fix r1 r2
    assume r1: "r1 \<in> set (map ?f (ts @ [new]))" and r2: "r2 \<in> set (map ?f (ts @ [new]))"
      and h: "activeToken r1 \<and> activeToken r2 \<and> rt_tokenFamily r1 = rt_tokenFamily r2"
    from act[OF r1] h have c1: "r1 = new \<or> (r1 \<in> set ts \<and> r1 \<noteq> rec)" by blast
    from act[OF r2] h have c2: "r2 = new \<or> (r2 \<in> set ts \<and> r2 \<noteq> rec)" by blast
    have old: "\<And>r. r \<in> set ts \<Longrightarrow> r \<noteq> rec \<Longrightarrow> activeToken r
                 \<Longrightarrow> rt_tokenFamily r \<noteq> rt_tokenFamily rec"
      using one rec unfolding oneActivePerFamily_def by blast
    from c1 c2 show "r1 = r2"
    proof (elim disjE conjE)
      assume "r1 = new" "r2 = new" then show ?thesis by simp
    next
      assume "r1 = new" "r2 \<in> set ts" "r2 \<noteq> rec"
      with old[of r2] h new show ?thesis by simp
    next
      assume "r1 \<in> set ts" "r1 \<noteq> rec" "r2 = new"
      with old[of r1] h new show ?thesis by simp
    next
      assume "r1 \<in> set ts" "r1 \<noteq> rec" "r2 \<in> set ts" "r2 \<noteq> rec"
      with one h show ?thesis unfolding oneActivePerFamily_def by blast
    qed
  qed
  have links: "successorLinks (map ?f (ts @ [new])) = insert (rt_id rec, rt_id new) (successorLinks ts)"
  proof (rule set_eqI)
    fix p
    show "p \<in> successorLinks (map ?f (ts @ [new])) \<longleftrightarrow> p \<in> insert (rt_id rec, rt_id new) (successorLinks ts)"
    proof
      assume "p \<in> successorLinks (map ?f (ts @ [new]))"
      then obtain r' s where p: "p = (rt_id r', s)" and r': "r' \<in> set (map ?f (ts @ [new]))"
        and s: "rt_newTokenId r' = Some s"
        by (rule successorLinksE)
      from r' obtain r where r: "r \<in> set (ts @ [new])" "r' = ?f r" by auto
      show "p \<in> insert (rt_id rec, rt_id new) (successorLinks ts)"
      proof (cases "r = new")
        case True with r fnew s new show ?thesis by simp
      next
        case False
        with r have rin: "r \<in> set ts" by simp
        show ?thesis
        proof (cases "r = rec")
          case True
          with r s p show ?thesis by (simp add: markRotated_def)
        next
          case False
          with rin r fother have "r' = r" by simp
          with rin p s show ?thesis by (simp add: successorLinksI)
        qed
      qed
    next
      assume "p \<in> insert (rt_id rec, rt_id new) (successorLinks ts)"
      then show "p \<in> successorLinks (map ?f (ts @ [new]))"
      proof
        assume pp: "p = (rt_id rec, rt_id new)"
        have m: "?f rec \<in> set (map ?f (ts @ [new]))" using rec(1) by simp
        have "rt_id (?f rec) = rt_id rec" "rt_newTokenId (?f rec) = Some (rt_id new)"
          by (simp_all add: markRotated_def)
        with successorLinksI[OF m, of "rt_id new"] pp show ?thesis by simp
      next
        assume "p \<in> successorLinks ts"
        then obtain r s where p: "p = (rt_id r, s)" and r: "r \<in> set ts"
          and s: "rt_newTokenId r = Some s"
          by (rule successorLinksE)
        from s rec(3) have "r \<noteq> rec" by auto
        with r fother have fr: "?f r = r" by simp
        from r have "?f r \<in> set (map ?f (ts @ [new]))" by simp
        then have "r \<in> set (map ?f (ts @ [new]))" unfolding fr .
        with p s show ?thesis by (simp add: successorLinksI)
      qed
    qed
  qed
  have notback: "(rt_id new, rt_id rec) \<notin> (successorLinks ts)\<^sup>*"
  proof
    assume "(rt_id new, rt_id rec) \<in> (successorLinks ts)\<^sup>*"
    then show False
    proof (cases rule: converse_rtranclE)
      case base with ne show ?thesis by simp
    next
      case (step y)
      then have "rt_id new \<in> set (map rt_id ts)" by (auto dest: successorLinks_ids)
      with fresh show ?thesis by simp
    qed
  qed
  have a: "acyclic (successorLinks (map ?f (ts @ [new])))"
    unfolding links using acyc notback by (simp add: acyclic_insert)
  from d o a show "storeInv (map ?f (ts @ [new]))" by (simp add: storeInv_def)
  show "keepsSuccessors ts (map ?f (ts @ [new]))"
    unfolding keepsSuccessors_def
  proof (intro ballI allI impI)
    fix r s assume r: "r \<in> set ts" and s: "rt_newTokenId r = Some s"
    from s rec(3) have "r \<noteq> rec" by auto
    with r fother have fr: "?f r = r" by simp
    from r have "?f r \<in> set (map ?f (ts @ [new]))" by simp
    then have "r \<in> set (map ?f (ts @ [new]))" unfolding fr .
    with s show "\<exists>r' \<in> set (map ?f (ts @ [new])). rt_id r' = rt_id r \<and> rt_newTokenId r' = Some s"
      by blast
  qed
qed

lemma find_SomeD: "find P xs = Some x \<Longrightarrow> x \<in> set xs \<and> P x"
  by (induction xs) (auto split: if_splits)

text \<open>
  What \<^verbatim>\<open>rotateRefreshToken\<close> does to the table once the grace block has fallen through:
  nothing, the revocation of the family, or the rotation.
\<close>

lemma rotateFresh_tokens:
  "snd (rotateFresh cr now gen dev rec db) = db
   \<or> (isl (fst (rotateFresh cr now gen dev rec db))
       \<and> refreshTokens (snd (rotateFresh cr now gen dev rec db)) =
           revokeTokensWhere (\<lambda>r. rt_tokenFamily r = rt_tokenFamily rec) now (refreshTokens db))
   \<or> (\<not> isl (fst (rotateFresh cr now gen dev rec db))
       \<and> snd (rotateFresh cr now gen dev rec db) \<noteq> db
       \<and> g_rtId gen \<notin> set (map rt_id (refreshTokens db))
       \<and> refreshTokens (snd (rotateFresh cr now gen dev rec db)) =
           map (markRotated (rt_id rec) (toStored now) (g_rtId gen))
             (refreshTokens db @ [rotatedRow cr now gen dev rec]))"
proof (cases "find (\<lambda>s. s_tokenFamily s = rt_tokenFamily rec) (sessions db)")
  case None
  then show ?thesis by (simp add: rotateFresh_def)
next
  case (Some session)
  show ?thesis
  proof (cases "now - s_lastActivity session < MIN_REFRESH_INTERVAL
              \<or> now - s_sessionStarted session > REFRESH_TOKEN_EXPIRY_DAYS * 24 * 60 * 60 * 1000
              \<or> s_refreshCount session > MAX_REFRESH_COUNT")
    case True
    with Some show ?thesis by (auto simp: rotateFresh_def)
  next
    case checks: False
    show ?thesis
    proof (cases "rt_deviceFingerprint rec \<noteq> fingerprint dev")
      case True
      with Some checks show ?thesis by (simp add: rotateFresh_def)
    next
      case fp: False
      show ?thesis
      proof (cases "insertRefreshToken (rotatedRow cr now gen dev rec) (refreshTokens db)")
        case None
        with Some checks fp show ?thesis
          by (simp add: rotateFresh_def rotatedRow_def Let_def)
      next
        case (Some ts)
        then have ts: "ts = refreshTokens db @ [rotatedRow cr now gen dev rec]"
          and fresh: "g_rtId gen \<notin> set (map rt_id (refreshTokens db))"
          by (auto simp: insertRefreshToken_def rotatedRow_def split: if_splits)
        have eq: "rotateFresh cr now gen dev rec db =
           (Inr \<lparr>accessToken = jwt_sign
                        \<lparr>c_userId = rt_userId rec, c_superuserId = rt_superuserId rec,
                         c_type = accountType (rt_superuserId rec),
                         c_jti = g_jti gen, c_sessionId = None\<rparr>
                        (JWT_SECRET cr) ACCESS_TOKEN_EXPIRY now,
                      refreshToken = g_secureToken gen, expiresIn = 15 * 60\<rparr>,
            db\<lparr>refreshTokens := map (markRotated (rt_id rec) (toStored now) (g_rtId gen)) ts,
               sessions := map (\<lambda>s. if s_id s = s_id session
                                then s\<lparr>s_lastActivity := toStored now,
                                       s_refreshCount := s_refreshCount session + 1\<rparr>
                                else s) (sessions db)\<rparr>)"
          using \<open>find (\<lambda>s. s_tokenFamily s = rt_tokenFamily rec) (sessions db) = Some session\<close>
            checks fp Some
          by (simp add: rotateFresh_def rotatedRow_def Let_def markRotated_def[abs_def])
        have "length (refreshTokens (snd (rotateFresh cr now gen dev rec db)))
                \<noteq> length (refreshTokens db)"
          unfolding eq ts by simp
        then have "snd (rotateFresh cr now gen dev rec db) \<noteq> db" by auto
        with eq ts fresh show ?thesis by simp
      qed
    qed
  qed
qed


lemma rotate_keeps_inv:
  assumes inv: "storeInv (refreshTokens db)"
      and H: "(\<forall>rec. find (\<lambda>r. rt_tokenHash r = hashToken cr tok) (refreshTokens db) = Some rec
                  \<longrightarrow> rt_rotatedAt rec = None \<and> rt_newTokenId rec = None)
              \<or> isl (fst (rotateRefreshToken cr now gen tok dev db))
              \<or> snd (rotateRefreshToken cr now gen tok dev db) = db"
  shows "storeInv (refreshTokens (snd (rotateRefreshToken cr now gen tok dev db)))
       \<and> keepsSuccessors (refreshTokens db)
            (refreshTokens (snd (rotateRefreshToken cr now gen tok dev db)))"
proof (cases "find (\<lambda>r. rt_tokenHash r = hashToken cr tok) (refreshTokens db)")
  case None
  with inv show ?thesis by (simp add: rotateRefreshToken_def keepsSuccessors_refl)
next
  case (Some rec)
  note found = find_SomeD[OF Some]
  show ?thesis
  proof (cases "rt_revoked rec")
    case True
    with Some inv show ?thesis
      by (simp add: rotateRefreshToken_def storeInv_revoke keepsSuccessors_revoke)
  next
    case notrev: False
    show ?thesis
    proof (cases "now > rt_expiresAt rec")
      case True
      with Some notrev inv show ?thesis
        by (simp add: rotateRefreshToken_def keepsSuccessors_refl)
    next
      case notexp: False
      show ?thesis
      proof (cases "graceReissue cr now gen tok rec (refreshTokens db)")
        case (Some pair)
        with \<open>find (\<lambda>r. rt_tokenHash r = hashToken cr tok) (refreshTokens db) = Some rec\<close>
          notrev notexp inv show ?thesis
          by (simp add: rotateRefreshToken_def keepsSuccessors_refl)
      next
        case None
        with \<open>find (\<lambda>r. rt_tokenHash r = hashToken cr tok) (refreshTokens db) = Some rec\<close>
          notrev notexp
        have eq: "rotateRefreshToken cr now gen tok dev db = rotateFresh cr now gen dev rec db"
          by (simp add: rotateRefreshToken_def)
        from rotateFresh_tokens[of cr now gen dev rec db] show ?thesis
        proof (elim disjE conjE)
          assume "snd (rotateFresh cr now gen dev rec db) = db"
          with inv show ?thesis by (simp add: eq keepsSuccessors_refl)
        next
          assume "refreshTokens (snd (rotateFresh cr now gen dev rec db)) =
             revokeTokensWhere (\<lambda>r. rt_tokenFamily r = rt_tokenFamily rec) now (refreshTokens db)"
          with inv show ?thesis by (simp add: eq storeInv_revoke keepsSuccessors_revoke)
        next
          assume ok: "\<not> isl (fst (rotateFresh cr now gen dev rec db))"
            and changed: "snd (rotateFresh cr now gen dev rec db) \<noteq> db"
            and fresh: "g_rtId gen \<notin> set (map rt_id (refreshTokens db))"
            and toks: "refreshTokens (snd (rotateFresh cr now gen dev rec db)) =
                map (markRotated (rt_id rec) (toStored now) (g_rtId gen))
                  (refreshTokens db @ [rotatedRow cr now gen dev rec])"
          from H ok changed
            \<open>find (\<lambda>r. rt_tokenHash r = hashToken cr tok) (refreshTokens db) = Some rec\<close>
          have never: "rt_rotatedAt rec = None" "rt_newTokenId rec = None"
            unfolding eq by auto
          have act: "activeToken rec" using notrev never by (simp add: activeToken_def)
          let ?new = "rotatedRow cr now gen dev rec"
          have n: "rt_id ?new = g_rtId gen" "rt_newTokenId ?new = None"
                  "rt_tokenFamily ?new = rt_tokenFamily rec"
            by (simp_all add: rotatedRow_def)
          from fresh n have fresh': "rt_id ?new \<notin> set (map rt_id (refreshTokens db))" by simp
          from storeInv_rotate[OF inv found[THEN conjunct1] act never(2) fresh' n(2,3), of "toStored now"]
          show ?thesis unfolding eq toks n(1) by simp
        qed
      qed
    qed
  qed
qed

lemma generateTokenPair_keeps_inv:
  assumes inv: "storeInv (refreshTokens db)"
      and alone: "\<forall>r \<in> set (refreshTokens db). activeToken r \<longrightarrow>
                    rt_tokenFamily r \<noteq> (if truthy tokenFamily then the tokenFamily
                                         else g_tokenFamily gen)"
  shows "storeInv (refreshTokens (snd (generateTokenPair cr familyUnique now gen userId superuserId dev tokenFamily db)))
       \<and> keepsSuccessors (refreshTokens db)
            (refreshTokens (snd (generateTokenPair cr familyUnique now gen userId superuserId dev tokenFamily db)))"
proof -
  let ?family = "if truthy tokenFamily then the tokenFamily else g_tokenFamily gen"
  let ?new = "\<lparr>rt_id = g_rtId gen, rt_tokenHash = hashToken cr (g_secureToken gen),
           rt_userId = userId, rt_superuserId = superuserId, rt_tokenFamily = ?family,
           rt_expiresAt = toStored (now + REFRESH_TOKEN_EXPIRY_DAYS * 24 * 60 * 60 * 1000),
           rt_revoked = False, rt_revokedAt = None, rt_rotatedAt = None, rt_newTokenId = None,
           rt_deviceFingerprint = fingerprint dev, rt_ipAddress = ipAddress dev,
           rt_userAgent = userAgent dev, rt_createdAt = toStored now\<rparr>"
  let ?r = "generateTokenPair cr familyUnique now gen userId superuserId dev tokenFamily db"
  show ?thesis
  proof (cases "insertRefreshToken ?new (refreshTokens db)")
    case None
    then have "snd ?r = db" by (simp add: generateTokenPair_def Let_def)
    with inv show ?thesis by (simp add: keepsSuccessors_refl)
  next
    case (Some ts)
    then have ts: "ts = refreshTokens db @ [?new]"
      and fresh: "rt_id ?new \<notin> set (map rt_id (refreshTokens db))"
      by (auto simp: insertRefreshToken_def split: if_splits)
    from Some have "refreshTokens (snd ?r) = ts"
      by (simp add: generateTokenPair_def Let_def split: option.splits)
    moreover have "storeInv (refreshTokens db @ [?new])"
      by (rule storeInv_append[OF inv fresh]) (use alone in simp_all)
    ultimately show ?thesis by (simp add: ts keepsSuccessors_append)
  qed
qed

lemma revokeAllTokens_keeps_inv:
  assumes inv: "storeInv (refreshTokens db)"
  shows "storeInv (refreshTokens (revokeAllTokens now userId superuserId db))
       \<and> keepsSuccessors (refreshTokens db) (refreshTokens (revokeAllTokens now userId superuserId db))"
  using inv
  by (auto simp: revokeAllTokens_def Let_def storeInv_revoke keepsSuccessors_revoke
        keepsSuccessors_refl
      intro: keepsSuccessors_trans[OF keepsSuccessors_revoke keepsSuccessors_revoke])

lemma enforceDeviceLimit_keeps_inv:
  assumes inv: "storeInv (refreshTokens db)"
      and run: "enforceDeviceLimit now userId superuserId maxDevices db = Some db'"
  shows "storeInv (refreshTokens db') \<and> keepsSuccessors (refreshTokens db) (refreshTokens db')"
  using inv run
  by (auto simp: enforceDeviceLimit_def Let_def storeInv_revoke keepsSuccessors_revoke
        keepsSuccessors_refl split: if_splits list.splits)

lemma successorLinks_Nil: "successorLinks [] = {}"
  by (simp add: successorLinks_def)

lemma successorLinks_Cons:
  "successorLinks (r # ts) =
     (case rt_newTokenId r of None \<Rightarrow> successorLinks ts
      | Some s \<Rightarrow> insert (rt_id r, s) (successorLinks ts))"
  by (auto simp: successorLinks_def split: option.splits)

lemma acyclic_no_links: "acyclic ({} :: (string \<times> string) set)"
  by (simp add: acyclic_def)

lemma storeInv_dbLogin: "storeInv (refreshTokens dbLogin)"
  by (simp add: storeInv_def oneActivePerFamily_def successorLinks_Nil successorLinks_Cons
        acyclic_no_links example_defs)

lemma storeInv_dbRotated: "storeInv (refreshTokens dbRotated)"
  by (simp add: storeInv_def oneActivePerFamily_def activeToken_def successorLinks_Nil
        successorLinks_Cons acyclic_insert acyclic_no_links example_defs)

text \<open>
  C2, as the code has it. From a table that satisfies the invariant:
  \<^verbatim>\<open>generateTokenPair\<close> keeps it when the family it issues into has no active row;
  \<^verbatim>\<open>rotateRefreshToken\<close> keeps it on every call except a successful rotation of a
  record that was rotated before (the call presents a never-rotated record, or returns
  an error, or leaves the store unchanged); \<^verbatim>\<open>revokeAllTokens\<close> and
  \<^verbatim>\<open>enforceDeviceLimit\<close> keep it always. In each case every successor link of the
  table is still there afterwards.
\<close>

theorem token_store_invariant_preserved:
  assumes inv: "storeInv (refreshTokens db)"
  shows "((\<forall>r \<in> set (refreshTokens db). activeToken r \<longrightarrow>
              rt_tokenFamily r \<noteq> (if truthy tokenFamily then the tokenFamily
                                   else g_tokenFamily gen)) \<longrightarrow>
            storeInv (refreshTokens (snd (generateTokenPair cr familyUnique now gen userId superuserId dev tokenFamily db)))
          \<and> keepsSuccessors (refreshTokens db)
              (refreshTokens (snd (generateTokenPair cr familyUnique now gen userId superuserId dev tokenFamily db))))
       \<and> ((\<forall>rec. find (\<lambda>r. rt_tokenHash r = hashToken cr tok) (refreshTokens db) = Some rec
                  \<longrightarrow> rt_rotatedAt rec = None \<and> rt_newTokenId rec = None)
            \<or> isl (fst (rotateRefreshToken cr now gen tok dev db))
            \<or> snd (rotateRefreshToken cr now gen tok dev db) = db \<longrightarrow>
            storeInv (refreshTokens (snd (rotateRefreshToken cr now gen tok dev db)))
          \<and> keepsSuccessors (refreshTokens db)
              (refreshTokens (snd (rotateRefreshToken cr now gen tok dev db))))
       \<and> storeInv (refreshTokens (revokeAllTokens now userId superuserId db))
       \<and> keepsSuccessors (refreshTokens db) (refreshTokens (revokeAllTokens now userId superuserId db))
       \<and> (\<forall>db'. enforceDeviceLimit now userId superuserId maxDevices db = Some db' \<longrightarrow>
            storeInv (refreshTokens db') \<and> keepsSuccessors (refreshTokens db) (refreshTokens db'))"
  using generateTokenPair_keeps_inv[OF inv, where familyUnique = familyUnique]
    rotate_keeps_inv[OF inv]
    revokeAllTokens_keeps_inv[OF inv] enforceDeviceLimit_keeps_inv[OF inv]
  by blast

theorem token_store_invariant_preserved_witness:
  "storeInv (refreshTokens dbLogin)
   \<and> list_all (\<lambda>r. \<not> activeToken r \<or> rt_tokenFamily r \<noteq> ''fam2'') (refreshTokens dbLogin)
   \<and> find (\<lambda>r. rt_tokenHash r = hashToken crypto0 ''secretA'') (refreshTokens dbLogin) = Some tokenA
   \<and> rt_rotatedAt tokenA = None \<and> rt_newTokenId tokenA = None
   \<and> enforceDeviceLimit 9000 (Some ''u1'') None 1 dbLogin = Some dbEvicted
   \<and> storeInv (refreshTokens (snd (generateTokenPair crypto0 True 1000 gen2 (Some ''u1'') None deviceX None dbLogin)))
   \<and> storeInv (refreshTokens (snd (rotateRefreshToken crypto0 70000 gen2 ''secretA'' deviceA dbLogin)))
   \<and> keepsSuccessors (refreshTokens dbLogin)
        (refreshTokens (snd (rotateRefreshToken crypto0 70000 gen2 ''secretA'' deviceA dbLogin)))
   \<and> storeInv (refreshTokens (revokeAllTokens 9000 (Some ''u1'') None dbLogin))
   \<and> storeInv (refreshTokens dbEvicted)"
proof -
  note h1 = storeInv_dbLogin
  have h2: "list_all (\<lambda>r. \<not> activeToken r \<or> rt_tokenFamily r \<noteq> ''fam2'') (refreshTokens dbLogin)"
    by (simp add: example_defs)
  have h3: "find (\<lambda>r. rt_tokenHash r = hashToken crypto0 ''secretA'') (refreshTokens dbLogin) = Some tokenA"
    by (simp add: example_defs)
  have h4: "rt_rotatedAt tokenA = None" "rt_newTokenId tokenA = None"
    by (simp_all add: example_defs)
  have h5: "enforceDeviceLimit 9000 (Some ''u1'') None 1 dbLogin = Some dbEvicted"
    by (simp add: enforceDeviceLimit_def activeSessionsOf_def revokeSessionsWhere_def
          revokeTokensWhere_def toStored_def truthy_def Let_def dbEvicted_def example_defs)
  have fam: "(if truthy None then the None else g_tokenFamily gen2) = ''fam2''"
    by (simp add: truthy_def gen2_def)
  have alone: "\<forall>r \<in> set (refreshTokens dbLogin). activeToken r \<longrightarrow>
              rt_tokenFamily r \<noteq> (if truthy None then the None else g_tokenFamily gen2)"
    unfolding fam using h2 by (auto simp: list_all_iff)
  have never: "\<forall>rec. find (\<lambda>r. rt_tokenHash r = hashToken crypto0 ''secretA'') (refreshTokens dbLogin) = Some rec
                  \<longrightarrow> rt_rotatedAt rec = None \<and> rt_newTokenId rec = None"
    using h3 h4 by simp
  note gen = token_store_invariant_preserved[OF h1, of None gen2 crypto0 True 1000 "Some ''u1''" None deviceX]
  note rot = token_store_invariant_preserved[OF h1, of None gen2 crypto0 True 70000 "Some ''u1''" None deviceA "''secretA''"]
  note rev = token_store_invariant_preserved[OF h1, of None gen2 crypto0 True 9000 "Some ''u1''" None deviceA "''secretA''" 1]
  from gen alone have c1: "storeInv (refreshTokens (snd (generateTokenPair crypto0 True 1000 gen2 (Some ''u1'') None deviceX None dbLogin)))"
    by blast
  from rot never have c2: "storeInv (refreshTokens (snd (rotateRefreshToken crypto0 70000 gen2 ''secretA'' deviceA dbLogin)))"
    and c3: "keepsSuccessors (refreshTokens dbLogin)
        (refreshTokens (snd (rotateRefreshToken crypto0 70000 gen2 ''secretA'' deviceA dbLogin)))"
    by blast+
  from rev have c4: "storeInv (refreshTokens (revokeAllTokens 9000 (Some ''u1'') None dbLogin))"
    by blast
  from rev h5 have c5: "storeInv (refreshTokens dbEvicted)" by blast
  from h1 h2 h3 h4 h5 c1 c2 c3 c4 c5 show ?thesis by blast
qed

text \<open>
  C2 as stated fails. Issuing a pair into the family of a live login (the optional
  \<open>tokenFamily\<close> argument) leaves two active rows in that family, with or without the
  unique index on the sessions table. And the second
  rotation of the stale secret A on \<open>dbRotated\<close> leaves B and C both active and replaces
  A's successor B by C.
\<close>

theorem store_invariant_counterexample:
  "storeInv (refreshTokens dbLogin)
   \<and> \<not> storeInv (refreshTokens
          (snd (generateTokenPair crypto0 True 1000 gen4 (Some ''u1'') None deviceA (Some ''fam1'') dbLogin)))
   \<and> \<not> storeInv (refreshTokens
          (snd (generateTokenPair crypto0 False 1000 gen4 (Some ''u1'') None deviceA (Some ''fam1'') dbLogin)))
   \<and> storeInv (refreshTokens dbRotated)
   \<and> \<not> storeInv (refreshTokens
          (snd (rotateRefreshToken crypto0 140000 gen3 ''secretA'' deviceA dbRotated)))
   \<and> \<not> keepsSuccessors (refreshTokens dbRotated)
          (refreshTokens (snd (rotateRefreshToken crypto0 140000 gen3 ''secretA'' deviceA dbRotated)))"
proof -
  have g: "refreshTokens
          (snd (generateTokenPair crypto0 True 1000 gen4 (Some ''u1'') None deviceA (Some ''fam1'') dbLogin))
        = [tokenA, tokenA\<lparr>rt_id := ''rt_E'', rt_tokenHash := ''h:secretE'',
                          rt_expiresAt := 2592001000, rt_createdAt := 1000\<rparr>]"
    by (simp add: token_service_defs example_defs)
  have g': "refreshTokens
          (snd (generateTokenPair crypto0 False 1000 gen4 (Some ''u1'') None deviceA (Some ''fam1'') dbLogin))
        = [tokenA, tokenA\<lparr>rt_id := ''rt_E'', rt_tokenHash := ''h:secretE'',
                          rt_expiresAt := 2592001000, rt_createdAt := 1000\<rparr>]"
    by (simp add: token_service_defs example_defs)
  have r: "refreshTokens (snd (rotateRefreshToken crypto0 140000 gen3 ''secretA'' deviceA dbRotated))
        = [tokenA\<lparr>rt_rotatedAt := Some 140000, rt_newTokenId := Some ''rt_C''\<rparr>, tokenB, tokenC]"
    by (simp add: token_service_defs example_defs)
  have n1: "\<not> storeInv [tokenA, tokenA\<lparr>rt_id := ''rt_E'', rt_tokenHash := ''h:secretE'',
                          rt_expiresAt := 2592001000, rt_createdAt := 1000\<rparr>]"
    by (simp add: storeInv_def oneActivePerFamily_def activeToken_def example_defs)
  have n2: "\<not> storeInv [tokenA\<lparr>rt_rotatedAt := Some 140000, rt_newTokenId := Some ''rt_C''\<rparr>, tokenB, tokenC]"
    by (simp add: storeInv_def oneActivePerFamily_def activeToken_def example_defs)
  have n3: "\<not> keepsSuccessors (refreshTokens dbRotated)
       [tokenA\<lparr>rt_rotatedAt := Some 140000, rt_newTokenId := Some ''rt_C''\<rparr>, tokenB, tokenC]"
    by (simp add: keepsSuccessors_def example_defs)
  from storeInv_dbLogin storeInv_dbRotated n1 n2 n3 show ?thesis
    unfolding g g' r by blast
qed

section \<open>A revoked secret is never served again\<close>

lemma find_map_same:
  assumes "\<And>x. P (f x) = P x"
  shows "find P (map f xs) = map_option f (find P xs)"
  by (induction xs) (simp_all add: assms)

lemma revokedSecret_revoke:
  "revokedSecret cr tok ts \<Longrightarrow> revokedSecret cr tok (revokeTokensWhere P now ts)"
  by (auto simp: revokedSecret_def find_revokeTokensWhere_hash split: option.splits)

lemma revokedSecret_append:
  "revokedSecret cr tok ts \<Longrightarrow> revokedSecret cr tok (ts @ [new])"
  by (auto simp: revokedSecret_def find_append split: option.splits)

lemma revokedSecret_markRotated:
  assumes "revokedSecret cr tok ts"
  shows "revokedSecret cr tok (map (markRotated oldId now newId) ts)"
proof -
  have "find (\<lambda>r. rt_tokenHash r = hashToken cr tok) (map (markRotated oldId now newId) ts)
      = map_option (markRotated oldId now newId) (find (\<lambda>r. rt_tokenHash r = hashToken cr tok) ts)"
    by (rule find_map_same) (simp add: markRotated_def)
  with assms show ?thesis
    by (auto simp: revokedSecret_def markRotated_def split: option.splits)
qed

lemma rotate_tokens_shape:
  "refreshTokens (snd (rotateRefreshToken cr now gen tok dev db)) = refreshTokens db
   \<or> (\<exists>fam. refreshTokens (snd (rotateRefreshToken cr now gen tok dev db)) =
          revokeTokensWhere (\<lambda>r. rt_tokenFamily r = fam) now (refreshTokens db))
   \<or> (\<exists>rec. refreshTokens (snd (rotateRefreshToken cr now gen tok dev db)) =
          map (markRotated (rt_id rec) (toStored now) (g_rtId gen))
            (refreshTokens db @ [rotatedRow cr now gen dev rec]))"
proof (cases "find (\<lambda>r. rt_tokenHash r = hashToken cr tok) (refreshTokens db)")
  case None
  then show ?thesis by (simp add: rotateRefreshToken_def)
next
  case (Some rec)
  show ?thesis
  proof (cases "rt_revoked rec")
    case True
    with Some have "refreshTokens (snd (rotateRefreshToken cr now gen tok dev db)) =
          revokeTokensWhere (\<lambda>r. rt_tokenFamily r = rt_tokenFamily rec) now (refreshTokens db)"
      by (simp add: rotateRefreshToken_def)
    then show ?thesis by blast
  next
    case notrev: False
    show ?thesis
    proof (cases "now > rt_expiresAt rec \<or> graceReissue cr now gen tok rec (refreshTokens db) \<noteq> None")
      case True
      with Some notrev have "snd (rotateRefreshToken cr now gen tok dev db) = db"
        by (auto simp: rotateRefreshToken_def)
      then show ?thesis by simp
    next
      case False
      with Some notrev
      have eq: "rotateRefreshToken cr now gen tok dev db = rotateFresh cr now gen dev rec db"
        by (simp add: rotateRefreshToken_def)
      from rotateFresh_tokens[of cr now gen dev rec db] show ?thesis
        unfolding eq by (elim disjE conjE) (simp, blast, blast)
    qed
  qed
qed

lemma revokedSecret_rotate:
  assumes "revokedSecret cr tok (refreshTokens db)"
  shows "revokedSecret cr tok (refreshTokens (snd (rotateRefreshToken cr now gen tok' dev db)))"
  using rotate_tokens_shape[of cr now gen tok' dev db] assms
  by (auto simp: revokedSecret_revoke revokedSecret_markRotated revokedSecret_append)

lemma revokedSecret_issue:
  assumes "revokedSecret cr tok (refreshTokens db)"
  shows "revokedSecret cr tok
           (refreshTokens (snd (generateTokenPair cr familyUnique now gen userId superuserId dev fam db)))"
  using assms
  by (auto simp: generateTokenPair_def insertRefreshToken_def Let_def revokedSecret_append
      split: option.splits if_splits)

lemma revokedSecret_revokeAll:
  assumes "revokedSecret cr tok (refreshTokens db)"
  shows "revokedSecret cr tok (refreshTokens (revokeAllTokens now userId superuserId db))"
  using assms by (simp add: revokeAllTokens_def Let_def revokedSecret_revoke)

lemma revokedSecret_enforce:
  assumes "revokedSecret cr tok (refreshTokens db)"
  shows "revokedSecret cr tok (refreshTokens
           (case enforceDeviceLimit now userId superuserId maxDevices db of
              None \<Rightarrow> db | Some db' \<Rightarrow> db'))"
  using assms
  by (auto simp: enforceDeviceLimit_def Let_def revokedSecret_revoke split: list.splits)

lemma revokedSecret_applyOp:
  "revokedSecret cr tok (refreshTokens db) \<Longrightarrow> revokedSecret cr tok (refreshTokens (applyOp cr op db))"
  by (cases op)
     (simp_all add: revokedSecret_rotate revokedSecret_issue revokedSecret_revokeAll
        revokedSecret_enforce)

lemma revokedSecret_run:
  "revokedSecret cr tok (refreshTokens db) \<Longrightarrow> revokedSecret cr tok (refreshTokens (run cr ops db))"
  unfolding run_def
  by (induction ops arbitrary: db) (simp_all add: revokedSecret_applyOp)

lemma revokedSecret_rejected:
  assumes "revokedSecret cr tok (refreshTokens db)"
  shows "fst (rotateRefreshToken cr now gen tok dev db) = Inl ''Token has been revoked''"
  using assms by (auto simp: revokedSecret_def rotateRefreshToken_def split: option.splits)

text \<open>
  C6. When the presented secret's record is marked revoked, the call returns the error
  "Token has been revoked" (never a token pair); afterwards the tables hold the same
  rows (same ids, same families), every refresh-token row of the record's family is
  revoked, every session row of the family has \<open>revoked\<close> set and \<open>isActive\<close> cleared,
  and the secret still resolves to a revoked record of the same family. Moreover,
  after any sequence of token operations (issues, rotations of any secret, revocations,
  device-limit enforcements) presenting the secret again returns the same error.
\<close>

theorem rotate_revoked_never_succeeds:
  assumes "find (\<lambda>r. rt_tokenHash r = hashToken cr tok) (refreshTokens db) = Some rec"
      and "rt_revoked rec"
  shows "(let (res, db') = rotateRefreshToken cr now gen tok dev db in
           res = Inl ''Token has been revoked''
         \<and> map rt_id (refreshTokens db') = map rt_id (refreshTokens db)
         \<and> map rt_tokenFamily (refreshTokens db') = map rt_tokenFamily (refreshTokens db)
         \<and> (\<forall>r \<in> set (refreshTokens db'). rt_tokenFamily r = rt_tokenFamily rec \<longrightarrow> rt_revoked r)
         \<and> map s_id (sessions db') = map s_id (sessions db)
         \<and> map s_tokenFamily (sessions db') = map s_tokenFamily (sessions db)
         \<and> (\<forall>s \<in> set (sessions db'). s_tokenFamily s = rt_tokenFamily rec
               \<longrightarrow> s_revoked s \<and> \<not> s_isActive s)
         \<and> (\<exists>rec'. find (\<lambda>r. rt_tokenHash r = hashToken cr tok) (refreshTokens db') = Some rec'
               \<and> rt_revoked rec' \<and> rt_tokenFamily rec' = rt_tokenFamily rec))
       \<and> (\<forall>ops now' gen' dev'.
            fst (rotateRefreshToken cr now' gen' tok dev' (run cr ops db))
              = Inl ''Token has been revoked'')"
proof -
  have "revokedSecret cr tok (refreshTokens db)"
    using assms by (simp add: revokedSecret_def)
  then have "\<forall>ops now' gen' dev'.
            fst (rotateRefreshToken cr now' gen' tok dev' (run cr ops db))
              = Inl ''Token has been revoked''"
    by (simp add: revokedSecret_run revokedSecret_rejected)
  with rotate_revoked_step[OF assms, of now gen dev] show ?thesis by blast
qed

theorem rotate_revoked_never_succeeds_witness:
  "find (\<lambda>r. rt_tokenHash r = hashToken crypto0 ''secretA'') (refreshTokens dbRevoked)
     = Some (tokenA\<lparr>rt_revoked := True, rt_revokedAt := Some 50000\<rparr>)
   \<and> rt_revoked (tokenA\<lparr>rt_revoked := True, rt_revokedAt := Some 50000\<rparr>)
   \<and> fst (rotateRefreshToken crypto0 60000 gen2 ''secretA'' deviceA dbRevoked)
       = Inl ''Token has been revoked''
   \<and> fst (rotateRefreshToken crypto0 200000 gen3 ''secretA'' deviceA
            (run crypto0 [Issue True 70000 gen2 (Some ''u1'') None deviceA (Some ''fam1''),
                          Rotate 140000 gen4 ''secretB'' deviceA] dbRevoked))
       = Inl ''Token has been revoked''"
proof -
  have h1: "find (\<lambda>r. rt_tokenHash r = hashToken crypto0 ''secretA'') (refreshTokens dbRevoked)
              = Some (tokenA\<lparr>rt_revoked := True, rt_revokedAt := Some 50000\<rparr>)"
    by (simp add: example_defs)
  have h2: "rt_revoked (tokenA\<lparr>rt_revoked := True, rt_revokedAt := Some 50000\<rparr>)"
    by simp
  show ?thesis
    using rotate_revoked_never_succeeds[OF h1 h2, of 60000 gen2 deviceA] h1 h2
    by (simp add: case_prod_beta)
qed

end
